theory Spec2Isabelle
  imports Complex_Main "HOL-Library.Sublist"
begin

section \<open>Python string primitives\<close>

text \<open>
  Strings are byte lists. \<open>str.lower\<close> is modelled on the ASCII letters (other bytes
  are left as they are), \<open>kw in text\<close> is the contiguous-substring test and
  \<open>s.replace(old, new)\<close> replaces the non-overlapping occurrences of a non-empty
  \<open>old\<close> from left to right.
\<close>

definition lower_char :: "char \<Rightarrow> char" where
  "lower_char c =
     (let n = (of_char c :: nat) in if 65 \<le> n \<and> n \<le> 90 then char_of (n + 32) else c)"

definition upper_char :: "char \<Rightarrow> char" where
  "upper_char c =
     (let n = (of_char c :: nat) in if 97 \<le> n \<and> n \<le> 122 then char_of (n - 32) else c)"

definition is_alpha :: "char \<Rightarrow> bool" where
  "is_alpha c = (let n = (of_char c :: nat) in (65 \<le> n \<and> n \<le> 90) \<or> (97 \<le> n \<and> n \<le> 122))"

definition lower :: "string \<Rightarrow> string" where
  "lower s = map lower_char s"

fun str_in :: "string \<Rightarrow> string \<Rightarrow> bool" where
  "str_in kw [] = (kw = [])"
| "str_in kw (c # cs) = (prefix kw (c # cs) \<or> str_in kw cs)"

function replace_str :: "string \<Rightarrow> string \<Rightarrow> string \<Rightarrow> string" where
  "replace_str old new [] = []"
| "replace_str old new (c # cs) =
     (if old \<noteq> [] \<and> prefix old (c # cs)
      then new @ replace_str old new (drop (length old) (c # cs))
      else c # replace_str old new cs)"
  by pat_completeness auto
termination
  by (relation "measure (\<lambda>(old, new, s). length s)") (auto simp: Suc_le_eq)

text \<open>\<open>any(kw in text for kw in keywords)\<close>.\<close>

definition any_in :: "string list \<Rightarrow> string \<Rightarrow> bool" where
  "any_in keywords text = list_ex (\<lambda>kw. str_in kw text) keywords"


text \<open>\<open>str.title\<close>: a letter after a non-letter is upper-cased, a letter after a letter lower-cased.\<close>

fun title_from :: "bool \<Rightarrow> string \<Rightarrow> string" where
  "title_from prev [] = []"
| "title_from prev (c # cs) =
     (if is_alpha c then (if prev then lower_char c else upper_char c) # title_from True cs
      else c # title_from False cs)"

definition title :: "string \<Rightarrow> string" where
  "title s = title_from False s"

text \<open>\<open>sep.join(parts)\<close> and the decimal rendering of a natural number in an f-string.\<close>

fun join :: "string \<Rightarrow> string list \<Rightarrow> string" where
  "join sep [] = []"
| "join sep [x] = x"
| "join sep (x # y # ys) = x @ sep @ join sep (y # ys)"

definition digit_char :: "nat \<Rightarrow> char" where
  "digit_char d = char_of (48 + d)"

function str_of_nat :: "nat \<Rightarrow> string" where
  "str_of_nat n = (if n < 10 then [digit_char n] else str_of_nat (n div 10) @ [digit_char (n mod 10)])"
  by pat_completeness auto
termination
  by (relation "measure id") auto

text \<open>The first index whose element satisfies a test: a \<open>for ... if ...: break\<close> search.\<close>

fun first_index :: "('a \<Rightarrow> bool) \<Rightarrow> 'a list \<Rightarrow> nat option" where
  "first_index P [] = None"
| "first_index P (x # xs) =
     (if P x then Some 0 else (case first_index P xs of None \<Rightarrow> None | Some i \<Rightarrow> Some (Suc i)))"

section \<open>The analysis brief (orchestrator, rule mode)\<close>

text \<open>
  The dicts of the rule-based path are records: the generators below write every key
  they later read, so a lookup with a default (\<open>d.get(key, default)\<close>) always finds the
  key, and the default is modelled only where a dict may lack the key (the optional fields
  of the function definitions further down).

  A task dict of the brief. The greeting task is a copy of its pattern that still holds
  the \<open>keywords\<close> entry; every other task has it popped, and the domain defaults never
  had one: \<open>task_keywords\<close> is \<open>None\<close> for a dict without the key.
\<close>

record task =
  task_name :: string
  description :: string
  data_to_collect :: "string list"
  requires_api :: bool
  api_description :: string
  task_keywords :: "string list option"

record param_req =
  pr_name :: string
  pr_type :: string
  pr_description :: string

record fn_req =
  fr_name :: string
  fr_purpose :: string
  fr_input_params :: "param_req list"
  fr_expected_output :: string

record analysis =
  domain :: string
  agent_name_suggestion :: string
  agent_role :: string
  personality_traits :: "string list"
  greeting_style :: string
  language :: string
  voice_gender :: string
  tasks :: "task list"
  functions_needed :: "fn_req list"
  flow_summary :: "string list"
  ambiguities :: "string list"
  platform :: string
  user_requested_slots :: "string list"

subsection \<open>Domain detection\<close>

definition domain_keywords :: "(string \<times> string list) list" where
  "domain_keywords =
    [(''healthcare'', [''appointment'', ''doctor'', ''clinic'', ''hospital'', ''patient'', ''medical'', ''health'', ''therapy'']),
     (''e-commerce'', [''order'', ''product'', ''shipping'', ''cart'', ''purchase'', ''delivery'', ''shop'', ''store'', ''buy'']),
     (''finance'', [''account'', ''balance'', ''transaction'', ''payment'', ''loan'', ''bank'', ''card'', ''credit'']),
     (''travel'', [''flight'', ''hotel'', ''booking'', ''reservation'', ''travel'', ''trip'', ''airline'']),
     (''telecommunications'', [''plan'', ''data'', ''mobile'', ''phone bill'', ''sim'', ''network'', ''roaming'']),
     (''food_delivery'', [''food'', ''restaurant'', ''delivery'', ''menu'', ''order food'', ''meal'']),
     (''insurance'', [''claim'', ''policy'', ''insurance'', ''coverage'', ''premium'']),
     (''education'', [''course'', ''class'', ''enrollment'', ''student'', ''tutor'', ''training'']),
     (''real_estate'', [''property'', ''rent'', ''lease'', ''apartment'', ''house'', ''real estate'']),
     (''automotive'', [''car'', ''vehicle'', ''service'', ''repair'', ''maintenance'', ''dealership''])]"

definition detect_domain :: "string \<Rightarrow> string" where
  "detect_domain text =
     (case find (\<lambda>(d, kws). any_in kws text) domain_keywords of
        Some (d, kws) \<Rightarrow> d
      | None \<Rightarrow> ''general_support'')"

subsection \<open>Slot extraction and merging\<close>

definition slot_keywords :: "(string \<times> string list) list" where
  "slot_keywords =
    [(''customer_name'', [''name'', ''first name'', ''last name'', ''full name'', ''caller name'', ''user name'']),
     (''email'', [''email'', ''e-mail'', ''email address'', ''mail'']),
     (''phone_number'', [''phone'', ''phone number'', ''mobile'', ''contact number'', ''cell'']),
     (''preferred_date'', [''date'', ''day'', ''when'', ''preferred date'', ''appointment date'']),
     (''preferred_time'', [''time'', ''preferred time'', ''appointment time'', ''what time'']),
     (''address'', [''address'', ''location'', ''where'']),
     (''service_type'', [''service'', ''service type'', ''type of service'']),
     (''reason'', [''reason'', ''purpose'', ''why'']),
     (''order_number'', [''order number'', ''order id'', ''order #'']),
     (''account_number'', [''account number'', ''account id'', ''account #'']),
     (''issue_description'', [''issue'', ''problem'', ''complaint'', ''describe'']),
     (''age'', [''age'', ''how old'']),
     (''dob'', [''date of birth'', ''dob'', ''birthday'']),
     (''insurance_id'', [''insurance'', ''insurance id'', ''policy number'']),
     (''company_name'', [''company'', ''organization'', ''business name''])]"

text \<open>
  The outer loop runs over the table in order; the inner loop stops at the first keyword
  found in the text and appends the slot name unless it is already in the result.
\<close>

definition extract_user_slots :: "string \<Rightarrow> string list" where
  "extract_user_slots text =
     foldl (\<lambda>found_slots (slot_name, kws).
              if any_in kws text \<and> slot_name \<notin> set found_slots
              then found_slots @ [slot_name] else found_slots)
           [] slot_keywords"

definition collect_customer_information :: "string list \<Rightarrow> task" where
  "collect_customer_information user_slots =
     \<lparr>task_name = ''Collect Customer Information'',
      description = ''Collect customer details for the interaction'',
      data_to_collect = user_slots,
      requires_api = True,
      api_description = ''Store or process collected customer information'',
      task_keywords = None\<rparr>"

text \<open>The primary task: the first one that requires an API, else the first non-greeting one.\<close>

definition primary_task :: "task list \<Rightarrow> nat option" where
  "primary_task ts =
     (case first_index requires_api ts of
        Some i \<Rightarrow> Some i
      | None \<Rightarrow> first_index (\<lambda>t. task_name t \<noteq> ''Greeting'') ts)"

text \<open>
  One round of the merging loop: a slot not yet among the task's slots is appended. The
  set \<open>existing_slots\<close> of the source always holds exactly the slots of the list.
\<close>

definition add_slot :: "string list \<Rightarrow> string \<Rightarrow> string list" where
  "add_slot slots slot = (if slot \<notin> set slots then slots @ [slot] else slots)"

definition merge_user_slots_into_tasks :: "task list \<Rightarrow> string list \<Rightarrow> task list" where
  "merge_user_slots_into_tasks ts user_slots =
     (case primary_task ts of
        None \<Rightarrow> ts @ [collect_customer_information user_slots]
      | Some i \<Rightarrow>
          ts[i := (ts ! i)\<lparr>data_to_collect := foldl add_slot (data_to_collect (ts ! i)) user_slots\<rparr>])"

subsection \<open>Task detection\<close>

definition greet_pattern :: task where
  "greet_pattern =
     \<lparr>task_name = ''Greeting'',
      description = ''Greet the caller and introduce the service'',
      data_to_collect = [],
      requires_api = False,
      api_description = [],
      task_keywords = Some [''greet'', ''welcome'', ''hello'', ''introduce'']\<rparr>"

definition mk_task :: "string \<Rightarrow> string \<Rightarrow> string list \<Rightarrow> bool \<Rightarrow> string \<Rightarrow> task" where
  "mk_task n d slots api api_d =
     \<lparr>task_name = n, description = d, data_to_collect = slots, requires_api = api,
      api_description = api_d, task_keywords = None\<rparr>"

text \<open>
  The pattern table after the greeting entry, in the order of the source: key, keywords,
  and the task that a match appends (the pattern without its keywords).
\<close>

definition task_patterns :: "(string \<times> string list \<times> task) list" where
  "task_patterns =
    [(''collect_name'', [''take name'', ''ask name'', ''collect name'', ''get name'', ''ask for name''],
        mk_task ''Collect Customer Name'' ''Collect the caller's name for personalization''
          [''customer_name''] False []),
     (''collect_email'', [''email'', ''e-mail'', ''mail address''],
        mk_task ''Collect Email'' ''Collect the caller's email address'' [''email''] False []),
     (''collect_phone'', [''phone number'', ''mobile number'', ''contact number''],
        mk_task ''Collect Phone Number'' ''Collect the caller's phone number'' [''phone_number''] False []),
     (''appointment'', [''appointment'', ''schedule'', ''book'', ''booking'', ''slot''],
        mk_task ''Appointment Booking'' ''Book an appointment for the customer''
          [''customer_name'', ''preferred_date'', ''preferred_time''] True
          ''Check available appointment slots and book an appointment''),
     (''order_status'', [''order status'', ''track order'', ''where is my order'', ''order tracking''],
        mk_task ''Order Status Check'' ''Check the status of a customer's order''
          [''order_number''] True ''Look up order status by order number''),
     (''account_inquiry'', [''account'', ''balance'', ''statement''],
        mk_task ''Account Inquiry'' ''Look up customer account information''
          [''account_number''] True ''Retrieve account details and balance''),
     (''complaint'', [''complaint'', ''issue'', ''problem'', ''wrong''],
        mk_task ''File Complaint'' ''Record and process a customer complaint''
          [''customer_name'', ''issue_description''] True ''Submit a customer complaint ticket''),
     (''cancel'', [''cancel'', ''cancellation'', ''refund''],
        mk_task ''Cancellation Processing'' ''Process a cancellation or refund request''
          [''order_number'', ''cancellation_reason''] True ''Process cancellation and initiate refund''),
     (''confirm'', [''confirm'', ''verify'', ''availability'', ''available''],
        mk_task ''Confirm Availability'' ''Confirm availability via external system''
          [] True ''Verify availability through the backend API''),
     (''faq'', [''faq'', ''question'', ''information'', ''info'', ''help''],
        mk_task ''FAQ & Information'' ''Answer frequently asked questions'' [] False [])]"

definition domain_default_tasks :: "string \<Rightarrow> task list" where
  "domain_default_tasks d =
     (if d = ''healthcare'' then
        [mk_task ''Appointment Booking'' ''Book an appointment for the customer''
           [''customer_name'', ''preferred_date'', ''preferred_time''] True
           ''Check available appointment slots and book an appointment'']
      else if d = ''e-commerce'' then
        [mk_task ''Order Status Check'' ''Check the status of a customer's order''
           [''order_number''] True ''Look up order status by order number'']
      else if d = ''finance'' then
        [mk_task ''Account Inquiry'' ''Look up customer account information''
           [''account_number''] True ''Retrieve account details and balance'']
      else
        [mk_task ''General Inquiry'' ''Handle general customer inquiries''
           [''customer_name'', ''inquiry_details''] False []])"

text \<open>Deduplication by task name: the first task of each name is kept.\<close>

fun unique_tasks :: "string list \<Rightarrow> task list \<Rightarrow> task list" where
  "unique_tasks seen_names [] = []"
| "unique_tasks seen_names (t # ts) =
     (if task_name t \<notin> set seen_names then t # unique_tasks (task_name t # seen_names) ts
      else unique_tasks seen_names ts)"

text \<open>
  The greeting test of the source is \<open>any(...) or True\<close>: the greeting task is always
  appended first.
\<close>

definition detect_tasks :: "string \<Rightarrow> string \<Rightarrow> task list" where
  "detect_tasks text d =
     (let detected = greet_pattern #
            map (\<lambda>(key, kws, t). t) (filter (\<lambda>(key, kws, t). any_in kws text) task_patterns);
          with_defaults = (if length detected \<le> 1 then detected @ domain_default_tasks d else detected)
      in unique_tasks [] with_defaults)"

subsection \<open>Function requirements\<close>

text \<open>
  The source passes the prompt text on to \<open>_detect_functions\<close> and
  \<open>_task_to_function_params\<close>, which never read it; the model leaves that argument out.
\<close>

definition name_map :: "(string \<times> string) list" where
  "name_map =
    [(''appointment_booking'', ''get_appointment_slots''),
     (''order_status_check'', ''get_order_status''),
     (''account_inquiry'', ''get_account_info''),
     (''file_complaint'', ''submit_complaint''),
     (''cancellation_processing'', ''process_cancellation''),
     (''confirm_availability'', ''check_availability''),
     (''general_inquiry'', ''search_knowledge_base'')]"

text \<open>The character class \<open>[a-z0-9_]\<close> of the sanitising regular expression.\<close>

definition ident_char :: "char \<Rightarrow> bool" where
  "ident_char c =
     (let n = (of_char c :: nat) in (97 \<le> n \<and> n \<le> 122) \<or> (48 \<le> n \<and> n \<le> 57) \<or> n = 95)"

definition task_to_function_name :: "string \<Rightarrow> string" where
  "task_to_function_name tname =
     (case map_of name_map tname of
        Some fn_name \<Rightarrow> fn_name
      | None \<Rightarrow> (let clean = filter ident_char tname in if clean \<noteq> [] then clean else ''perform_action''))"

definition task_to_function_params :: "task \<Rightarrow> param_req list" where
  "task_to_function_params t =
     map (\<lambda>slot.
            \<lparr>pr_name = slot,
             pr_type =
               (if str_in ''date'' (lower slot) then ''string''
                else if str_in ''number'' (lower slot) \<or> str_in ''amount'' (lower slot) then ''string''
                else if str_in ''count'' (lower slot) \<or> str_in ''quantity'' (lower slot) then ''integer''
                else ''string''),
             pr_description = ''The customer's '' @ replace_str ''_'' '' '' slot\<rparr>)
         (data_to_collect t)"

definition output_map :: "(string \<times> string) list" where
  "output_map =
    [(''get_appointment_slots'', ''List of available appointment slots with dates and times''),
     (''book_appointment'', ''Booking confirmation with confirmation code''),
     (''get_order_status'', ''Order status including tracking info and estimated delivery''),
     (''get_account_info'', ''Account details including balance and recent activity''),
     (''submit_complaint'', ''Complaint ticket ID and status''),
     (''process_cancellation'', ''Cancellation confirmation and refund details''),
     (''check_availability'', ''Availability status with available options''),
     (''search_knowledge_base'', ''Relevant FAQ entries or knowledge base articles'')]"

definition infer_output :: "string \<Rightarrow> string" where
  "infer_output fn_name =
     (case map_of output_map fn_name of
        Some out \<Rightarrow> out
      | None \<Rightarrow> ''JSON response with operation result'')"

definition snake_name :: "string \<Rightarrow> string" where
  "snake_name n = replace_str '' '' ''_'' (lower n)"

definition function_for_task :: "task \<Rightarrow> fn_req" where
  "function_for_task t =
     (let fn_name = task_to_function_name (snake_name (task_name t)) in
      \<lparr>fr_name = fn_name,
       fr_purpose = api_description t,
       fr_input_params = task_to_function_params t,
       fr_expected_output = infer_output fn_name\<rparr>)"

definition detect_functions :: "task list \<Rightarrow> fn_req list" where
  "detect_functions ts = map function_for_task (filter requires_api ts)"

subsection \<open>Persona and voice detection\<close>

definition domain_names :: "(string \<times> string) list" where
  "domain_names =
    [(''healthcare'', ''MediBot''), (''e-commerce'', ''ShopAssist''), (''finance'', ''FinanceHelper''),
     (''travel'', ''TravelBuddy''), (''telecommunications'', ''TeleConnect''),
     (''food_delivery'', ''FoodieBot''), (''insurance'', ''InsureGuide''), (''education'', ''EduAssist''),
     (''real_estate'', ''PropertyPal''), (''automotive'', ''AutoCare''), (''general_support'', ''Ava'')]"

text \<open>The result is the triple (name, traits, style).\<close>

definition detect_persona :: "string \<Rightarrow> string \<Rightarrow> string \<times> string list \<times> string" where
  "detect_persona text d =
     (let name = (case map_of domain_names d of Some n \<Rightarrow> n | None \<Rightarrow> ''Ava'') in
      if str_in ''formal'' text then (name, [''professional'', ''courteous'', ''precise''], ''formal'')
      else if str_in ''casual'' text \<or> str_in ''friendly'' text
        then (name, [''friendly'', ''upbeat'', ''approachable''], ''casual'')
      else (name, [''friendly'', ''professional'', ''helpful''], ''warm''))"

definition detect_voice_gender :: "string \<Rightarrow> string" where
  "detect_voice_gender text =
     (if str_in ''male voice'' text \<or> str_in ''male agent'' text then ''male''
      else if str_in ''female voice'' text \<or> str_in ''female agent'' text then ''female''
      else ''female'')"

definition roles :: "(string \<times> string) list" where
  "roles =
    [(''healthcare'', ''Appointment & Patient Support Agent''),
     (''e-commerce'', ''Order & Shopping Support Agent''),
     (''finance'', ''Account & Financial Support Agent''),
     (''travel'', ''Booking & Travel Support Agent''),
     (''telecommunications'', ''Service & Billing Support Agent''),
     (''food_delivery'', ''Order & Delivery Support Agent''),
     (''insurance'', ''Claims & Policy Support Agent''),
     (''education'', ''Enrollment & Course Support Agent''),
     (''real_estate'', ''Property & Leasing Support Agent''),
     (''automotive'', ''Service & Repair Support Agent''),
     (''general_support'', ''Customer Support Agent'')]"

definition role_for_domain :: "string \<Rightarrow> string" where
  "role_for_domain d = (case map_of roles d of Some r \<Rightarrow> r | None \<Rightarrow> ''Customer Support Agent'')"

subsection \<open>Flow summary\<close>

text \<open>The loop state is the list of steps written so far and the next step number.\<close>

definition step_line :: "nat \<Rightarrow> string \<Rightarrow> string" where
  "step_line n body = ''Step '' @ str_of_nat n @ '': '' @ body"

definition summary_slot :: "string list \<times> nat \<Rightarrow> string \<Rightarrow> string list \<times> nat" where
  "summary_slot st slot =
     (case st of (steps, step_num) \<Rightarrow>
        (steps @ [step_line step_num (''Ask for the customer's '' @ replace_str ''_'' '' '' slot)],
         step_num + 1))"

definition summary_task :: "string list \<times> nat \<Rightarrow> task \<Rightarrow> string list \<times> nat" where
  "summary_task st t =
     (if task_name t = ''Greeting'' then st
      else (case foldl summary_slot st (data_to_collect t) of (steps, step_num) \<Rightarrow>
              if requires_api t
              then (steps @ [step_line step_num (api_description t),
                             step_line (step_num + 1) ''Communicate the result to the caller''],
                    step_num + 2)
              else (steps, step_num)))"

definition build_flow_summary :: "task list \<Rightarrow> string list" where
  "build_flow_summary ts =
     (case foldl summary_task ([''Step 1: Greet the caller and introduce the service''], 2) ts of
        (steps, step_num) \<Rightarrow>
          steps @ [step_line step_num ''Ask if there's anything else'',
                   step_line (step_num + 1) ''End the call politely''])"

subsection \<open>The rule-based analysis\<close>

definition analyze_with_rules :: "string \<Rightarrow> string \<Rightarrow> string \<Rightarrow> analysis" where
  "analyze_with_rules user_prompt lang plat =
     (let prompt_lower = lower user_prompt;
          d = detect_domain prompt_lower;
          user_slots = extract_user_slots prompt_lower;
          ts0 = detect_tasks prompt_lower d;
          ts = (if user_slots \<noteq> [] then merge_user_slots_into_tasks ts0 user_slots else ts0);
          fns = detect_functions ts
      in (case detect_persona prompt_lower d of (name, traits, style) \<Rightarrow>
           \<lparr>domain = d,
            agent_name_suggestion = name,
            agent_role = title d @ '' '' @ role_for_domain d,
            personality_traits = traits,
            greeting_style = style,
            language = lang,
            voice_gender = detect_voice_gender prompt_lower,
            tasks = ts,
            functions_needed = fns,
            flow_summary = build_flow_summary ts,
            ambiguities = [],
            platform = plat,
            user_requested_slots = user_slots\<rparr>))"

section \<open>Agent creator (rule mode)\<close>

text \<open>Python errors are values: the class of the exception and the text \<open>str(e)\<close>.\<close>

datatype exn = Exn (exn_class: string) (exn_text: string)

definition KeyError :: "string \<Rightarrow> exn" where
  "KeyError k = Exn ''KeyError'' ([CHR 0x27] @ k @ [CHR 0x27])"

definition ValidationError :: "string \<Rightarrow> exn" where
  "ValidationError msg = Exn ''ValidationError'' msg"

definition try_bind :: "exn + 'a \<Rightarrow> ('a \<Rightarrow> exn + 'b) \<Rightarrow> exn + 'b" where
  "try_bind m f = (case m of Inl e \<Rightarrow> Inl e | Inr x \<Rightarrow> f x)"

definition nl :: string where
  "nl = [CHR 0x0A]"

text \<open>The em dash of the source texts, in UTF-8.\<close>

definition em_dash :: string where
  "em_dash = [CHR 0xE2, CHR 0x80, CHR 0x94]"

subsection \<open>Persona\<close>

record persona_dict =
  pd_name :: string
  pd_role :: string
  pd_personality_traits :: "string list"
  pd_greeting_style :: string
  pd_system_prompt :: string
  pd_fallback_message :: string
  pd_escalation_message :: string
  pd_max_retries :: int
  pd_greeting_text :: string

definition task_instruction :: "nat \<Rightarrow> task \<Rightarrow> string" where
  "task_instruction i t =
     nl @ str_of_nat i @ ''. **'' @ task_name t @ ''**: '' @ description t
     @ (if data_to_collect t \<noteq> [] then nl @ ''   - Collect: '' @ join '', '' (data_to_collect t) else [])
     @ (if requires_api t then nl @ ''   - API Integration: '' @ api_description t else [])"

definition task_instructions :: "task list \<Rightarrow> string" where
  "task_instructions ts = concat (map (\<lambda>(i, t). task_instruction (Suc i) t) (enumerate 0 ts))"

definition system_prompt_text :: "string \<Rightarrow> string list \<Rightarrow> string \<Rightarrow> string \<Rightarrow> task list \<Rightarrow> string" where
  "system_prompt_text name traits role d ts =
     ''You are '' @ name @ '', a '' @ join '', '' traits @ '' '' @ role @ '' specializing in '' @ d @ ''. ''
     @ ''You handle phone conversations with customers and your primary tasks are:'' @ nl
     @ task_instructions ts @ nl @ nl
     @ ''## Conversation Guidelines'' @ nl
     @ ''- Always greet the caller warmly and introduce yourself by name.'' @ nl
     @ ''- Speak clearly and at a moderate pace.'' @ nl
     @ ''- Confirm information back to the caller before proceeding.'' @ nl
     @ ''- If you don't understand something, politely ask for clarification.'' @ nl
     @ ''- If you cannot help with a request, offer to transfer to a human agent.'' @ nl
     @ ''- Keep responses concise '' @ em_dash @ '' callers prefer short, clear answers.'' @ nl
     @ ''- End every call by asking if there's anything else you can help with.'' @ nl @ nl
     @ ''## Error Handling'' @ nl
     @ ''- If an API call fails, apologize and offer to try again or escalate.'' @ nl
     @ ''- After '' @ str_of_nat 3 @ '' failed attempts to understand, escalate to a human.'' @ nl
     @ ''- Never make up information '' @ em_dash @ '' only state what you know or can look up.'' @ nl @ nl
     @ ''## Tone'' @ nl
     @ ''- You are '' @ join '', '' traits @ ''.'' @ nl
     @ ''- Match the caller's energy level while maintaining professionalism.'' @ nl
     @ ''- Use the caller's name once you have it to personalize the experience.''"

definition warm_greeting :: "string \<Rightarrow> string" where
  "warm_greeting name =
     ''Hello! Thank you for calling. My name is '' @ name @ '', and I'm here to help you today. ''
     @ ''How can I assist you?''"

definition greeting_for :: "string \<Rightarrow> string \<Rightarrow> string \<Rightarrow> string" where
  "greeting_for style name role =
     (if style = ''warm'' then warm_greeting name
      else if style = ''formal'' then ''Good day. This is '' @ name @ '', your '' @ role @ ''. How may I assist you today?''
      else if style = ''casual'' then ''Hey there! I'm '' @ name @ ''. What can I help you with today?''
      else warm_greeting name)"

definition fallback_text :: string where
  "fallback_text = ''I'm sorry, I didn't quite catch that. Could you please repeat what you said?''"

definition escalation_text :: string where
  "escalation_text =
     ''I appreciate your patience. Let me connect you with a team member ''
     @ ''who can help you further. Please hold for just a moment.''"

definition build_persona :: "analysis \<Rightarrow> persona_dict" where
  "build_persona a =
     \<lparr>pd_name = agent_name_suggestion a,
      pd_role = agent_role a,
      pd_personality_traits = personality_traits a,
      pd_greeting_style = greeting_style a,
      pd_system_prompt =
        system_prompt_text (agent_name_suggestion a) (personality_traits a) (agent_role a) (domain a) (tasks a),
      pd_fallback_message = fallback_text,
      pd_escalation_message = escalation_text,
      pd_max_retries = 3,
      pd_greeting_text = greeting_for (greeting_style a) (agent_name_suggestion a) (agent_role a)\<rparr>"

subsection \<open>Voice\<close>

record voice_dict =
  vd_provider :: string
  vd_voice_id :: string
  vd_gender :: string
  vd_language :: string
  vd_speaking_rate :: rat
  vd_pitch :: rat

definition voice_map :: "((string \<times> string) \<times> string) list" where
  "voice_map =
    [((''female'', ''en-US''), ''en-US-Neural2-F''),
     ((''male'', ''en-US''), ''en-US-Neural2-D''),
     ((''neutral'', ''en-US''), ''en-US-Neural2-C''),
     ((''female'', ''en-GB''), ''en-GB-Neural2-A''),
     ((''male'', ''en-GB''), ''en-GB-Neural2-B''),
     ((''female'', ''hi-IN''), ''hi-IN-Neural2-A''),
     ((''male'', ''hi-IN''), ''hi-IN-Neural2-B''),
     ((''female'', ''es-ES''), ''es-ES-Neural2-A'')]"

definition build_voice :: "analysis \<Rightarrow> voice_dict" where
  "build_voice a =
     \<lparr>vd_provider = ''google'',
      vd_voice_id = (case map_of voice_map (voice_gender a, language a) of
                       Some v \<Rightarrow> v | None \<Rightarrow> ''en-US-Neural2-F''),
      vd_gender = voice_gender a,
      vd_language = language a,
      vd_speaking_rate = 1,
      vd_pitch = 0\<rparr>"

subsection \<open>Intents\<close>

record phrase_dict =
  ph_text :: string
  ph_language :: string

record intent_dict =
  in_name :: string
  in_description :: string
  in_training_phrases :: "phrase_dict list"
  in_priority :: int

definition phrases :: "string \<Rightarrow> string list \<Rightarrow> phrase_dict list" where
  "phrases lang texts = map (\<lambda>t. \<lparr>ph_text = t, ph_language = lang\<rparr>) texts"

definition task_intent :: "string \<Rightarrow> task \<Rightarrow> intent_dict" where
  "task_intent lang t =
     (let tname = snake_name (task_name t); desc = description t in
      \<lparr>in_name = ''request_'' @ tname,
       in_description = ''Caller wants to: '' @ desc,
       in_training_phrases = phrases lang
         [''I want to '' @ lower desc,
          ''Can you help me '' @ lower desc,
          ''I need to '' @ replace_str ''_'' '' '' tname,
          ''Please '' @ lower desc],
       in_priority = 3\<rparr>)"

definition build_intents :: "analysis \<Rightarrow> intent_dict list" where
  "build_intents a =
     [\<lparr>in_name = ''greeting'',
       in_description = ''Caller greets the agent or starts the conversation'',
       in_training_phrases = phrases (language a)
         [''Hello'', ''Hi there'', ''Good morning'', ''Hey'', ''I need help''],
       in_priority = 5\<rparr>]
     @ map (task_intent (language a)) (tasks a)
     @ [\<lparr>in_name = ''fallback'',
         in_description = ''Caller's request is not understood'',
         in_training_phrases = [],
         in_priority = 0\<rparr>,
        \<lparr>in_name = ''request_human_agent'',
         in_description = ''Caller wants to speak with a human'',
         in_training_phrases = phrases (language a)
           [''I want to talk to a person'', ''Transfer me to a human'',
            ''Can I speak with someone'', ''Let me talk to a real person''],
         in_priority = 8\<rparr>]"

subsection \<open>Conversation flow: node creation\<close>

record transition_dict =
  condition :: string
  target_node_id :: string

record node_dict =
  node_id :: string
  node_type :: string
  label :: string
  prompt_text :: "string option"
  collect_slot :: "string option"
  function_call :: "string option"
  transitions :: "transition_dict list"

record flow_dict =
  fl_name :: string
  fl_description :: string
  fl_entry_node_id :: string
  fl_nodes :: "node_dict list"

definition mk_node :: "string \<Rightarrow> string \<Rightarrow> string \<Rightarrow> string option \<Rightarrow> string option \<Rightarrow> string option \<Rightarrow> node_dict" where
  "mk_node nid ty lbl prompt slot fn =
     \<lparr>node_id = nid, node_type = ty, label = lbl, prompt_text = prompt, collect_slot = slot,
      function_call = fn, transitions = []\<rparr>"

definition slot_prompts :: "(string \<times> string) list" where
  "slot_prompts =
    [(''name'', ''Could I please have your name?''),
     (''customer_name'', ''Could I please have your name?''),
     (''full_name'', ''May I have your full name, please?''),
     (''first_name'', ''What's your first name?''),
     (''date'', ''What date works best for you?''),
     (''appointment_date'', ''What date would you like to schedule your appointment?''),
     (''preferred_date'', ''When would you prefer to come in?''),
     (''time'', ''And what time would you prefer?''),
     (''appointment_time'', ''What time would you like your appointment?''),
     (''preferred_time'', ''What time works best for you?''),
     (''email'', ''Could you provide your email address?''),
     (''phone'', ''What's the best phone number to reach you at?''),
     (''phone_number'', ''What's the best phone number to reach you at?''),
     (''service'', ''What type of service are you looking for?''),
     (''service_type'', ''What type of service do you need?''),
     (''reason'', ''Could you tell me the reason for your visit?''),
     (''location'', ''Which location would you prefer?''),
     (''order_number'', ''Could you provide your order number?''),
     (''account_number'', ''What's your account number?''),
     (''issue'', ''Could you describe the issue you're experiencing?''),
     (''product'', ''Which product are you inquiring about?'')]"

definition slot_prompt :: "string \<Rightarrow> string" where
  "slot_prompt slot =
     (case map_of slot_prompts (lower slot) of
        Some p \<Rightarrow> p
      | None \<Rightarrow> ''Could you please provide your '' @ replace_str ''_'' '' '' slot @ ''?'')"

definition collect_node :: "string \<Rightarrow> node_dict" where
  "collect_node slot =
     mk_node (''node_collect_'' @ snake_name slot) ''collect_info''
       (''Collect '' @ title (replace_str ''_'' '' '' slot))
       (Some (slot_prompt slot)) (Some (snake_name slot)) None"

text \<open>
  The function an API node refers to: the first requirement whose name contains the task
  name or is contained in the task's API description, else the first requirement, else
  nothing.
\<close>

definition matching_fn :: "fn_req list \<Rightarrow> string \<Rightarrow> string \<Rightarrow> string option" where
  "matching_fn fns tname api_desc =
     (case find (\<lambda>fn. str_in tname (fr_name fn) \<or> str_in (fr_name fn) api_desc) fns of
        Some fn \<Rightarrow> Some (fr_name fn)
      | None \<Rightarrow> (case fns of [] \<Rightarrow> None | fn # rest \<Rightarrow> Some (fr_name fn)))"

definition api_nodes :: "fn_req list \<Rightarrow> task \<Rightarrow> node_dict list" where
  "api_nodes fns t =
     (let tname = snake_name (task_name t); shown = replace_str ''_'' '' '' tname in
      [mk_node (''node_api_'' @ tname) ''api_call'' (''Call API for '' @ title shown)
         (Some ''One moment while I look that up for you...'') None
         (matching_fn fns tname (api_description t)),
       mk_node (''node_decision_'' @ tname) ''decision'' (''Check '' @ title shown @ '' Result'')
         None None None,
       mk_node (''node_success_'' @ tname) ''response'' (title shown @ '' '' @ em_dash @ '' Success'')
         (Some (''Great news! I've processed your '' @ shown @ '' successfully.'')) None None,
       mk_node (''node_failure_'' @ tname) ''response'' (title shown @ '' '' @ em_dash @ '' Failure'')
         (Some (''I'm sorry, I wasn't able to complete your '' @ shown @ '' at this time. ''
                @ ''Would you like me to transfer you to a team member?'')) None None])"

definition task_nodes :: "fn_req list \<Rightarrow> task \<Rightarrow> node_dict list" where
  "task_nodes fns t =
     map collect_node (data_to_collect t) @ (if requires_api t then api_nodes fns t else [])"

definition greet_node :: "analysis \<Rightarrow> node_dict" where
  "greet_node a =
     mk_node ''node_greet'' ''greeting'' ''Welcome Greeting''
       (Some (warm_greeting (agent_name_suggestion a))) None None"

definition closing_nodes :: "node_dict list" where
  "closing_nodes =
    [mk_node ''node_confirm'' ''confirm'' ''Confirm & Anything Else''
       (Some ''Is there anything else I can help you with today?'') None None,
     mk_node ''node_fallback'' ''fallback'' ''Fallback / Didn't Understand''
       (Some fallback_text) None None,
     mk_node ''node_transfer'' ''transfer'' ''Transfer to Human Agent''
       (Some escalation_text) None None,
     mk_node ''node_end'' ''end'' ''End Call''
       (Some ''Thank you for calling! Have a wonderful day. Goodbye!'') None None]"

definition flow_nodes :: "analysis \<Rightarrow> node_dict list" where
  "flow_nodes a =
     greet_node a # concat (map (task_nodes (functions_needed a)) (tasks a)) @ closing_nodes"

subsection \<open>Conversation flow: wiring\<close>

text \<open>
  The source builds \<open>node_map\<close>, a dict from node id to node object, by a comprehension
  over the node list: of several nodes with one id, the last is kept. The nodes are
  mutable objects shared between that dict and the list, and wiring never changes an id:
  \<open>node_map[nid]\<close> is the node at the last position of the list that carries the id, in
  its current state.
\<close>

fun last_index :: "('a \<Rightarrow> bool) \<Rightarrow> 'a list \<Rightarrow> nat option" where
  "last_index P [] = None"
| "last_index P (x # xs) =
     (case last_index P xs of
        Some i \<Rightarrow> Some (Suc i)
      | None \<Rightarrow> if P x then Some 0 else None)"

definition node_map :: "node_dict list \<Rightarrow> string \<Rightarrow> nat option" where
  "node_map nodes nid = last_index (\<lambda>n. node_id n = nid) nodes"

definition mk_transition :: "string \<Rightarrow> string \<Rightarrow> transition_dict" where
  "mk_transition c tgt = \<lparr>condition = c, target_node_id = tgt\<rparr>"

text \<open>\<open>node_map[nid]["transitions"].append(...)\<close>, or \<open>.extend(...)\<close>; a missing key raises.\<close>

definition add_transitions :: "string \<Rightarrow> transition_dict list \<Rightarrow> node_dict list \<Rightarrow> exn + node_dict list" where
  "add_transitions nid trs nodes =
     (case node_map nodes nid of
        None \<Rightarrow> Inl (KeyError nid)
      | Some i \<Rightarrow> Inr (nodes[i := (nodes ! i)\<lparr>transitions := transitions (nodes ! i) @ trs\<rparr>]))"

definition group_ids :: "node_dict list \<Rightarrow> task \<Rightarrow> string list" where
  "group_ids nodes t =
     (let tname = snake_name (task_name t) in
      filter (\<lambda>nid. node_map nodes nid \<noteq> None)
        (map (\<lambda>slot. ''node_collect_'' @ snake_name slot) (data_to_collect t))
      @ (if requires_api t
         then filter (\<lambda>nid. node_map nodes nid \<noteq> None) [''node_api_'' @ tname, ''node_decision_'' @ tname]
         else []))"

text \<open>The target of a chained node: the next id of the group if there is one (and it is
  a non-empty string, as the truth test of the source asks), else the confirm node.\<close>

definition next_or_confirm :: "string option \<Rightarrow> string" where
  "next_or_confirm next_nid =
     (case next_nid of None \<Rightarrow> ''node_confirm'' | Some n \<Rightarrow> if n \<noteq> [] then n else ''node_confirm'')"

definition wire_decision :: "string \<Rightarrow> node_dict list \<Rightarrow> exn + node_dict list" where
  "wire_decision nid nodes =
     (let tname = replace_str ''node_decision_'' [] nid;
          success_nid = ''node_success_'' @ tname;
          failure_nid = ''node_failure_'' @ tname
      in try_bind
           (if node_map nodes success_nid \<noteq> None
            then try_bind (add_transitions nid [mk_transition ''success'' success_nid] nodes)
                   (add_transitions success_nid [mk_transition ''continue'' ''node_confirm''])
            else Inr nodes)
           (\<lambda>nodes1.
              if node_map nodes1 failure_nid \<noteq> None
              then try_bind (add_transitions nid [mk_transition ''failure'' failure_nid] nodes1)
                     (\<lambda>nodes2. try_bind
                        (add_transitions failure_nid [mk_transition ''user_wants_transfer'' ''node_transfer''] nodes2)
                        (add_transitions failure_nid [mk_transition ''user_declines_transfer'' ''node_confirm'']))
              else Inr nodes1))"

definition wire_node :: "string \<Rightarrow> string option \<Rightarrow> node_dict list \<Rightarrow> exn + node_dict list" where
  "wire_node nid next_nid nodes =
     (case node_map nodes nid of
        None \<Rightarrow> Inl (KeyError nid)
      | Some i \<Rightarrow>
          if node_type (nodes ! i) = ''collect_info''
            then add_transitions nid [mk_transition ''slot_filled'' (next_or_confirm next_nid)] nodes
          else if node_type (nodes ! i) = ''api_call''
            then add_transitions nid [mk_transition ''api_response_received'' (next_or_confirm next_nid)] nodes
          else if node_type (nodes ! i) = ''decision''
            then wire_decision nid nodes
          else Inr nodes)"

fun chain_group :: "string list \<Rightarrow> node_dict list \<Rightarrow> exn + node_dict list" where
  "chain_group [] nodes = Inr nodes"
| "chain_group (nid # rest) nodes =
     try_bind (wire_node nid (case rest of [] \<Rightarrow> None | nx # nxs \<Rightarrow> Some nx) nodes)
       (chain_group rest)"

fun chain_groups :: "string list list \<Rightarrow> node_dict list \<Rightarrow> exn + node_dict list" where
  "chain_groups [] nodes = Inr nodes"
| "chain_groups (g # gs) nodes = try_bind (chain_group g nodes) (chain_groups gs)"

definition greet_target :: "string list list \<Rightarrow> string" where
  "greet_target task_groups =
     (case task_groups of
        [] \<Rightarrow> ''node_confirm''
      | g # gs \<Rightarrow> (case g of [] \<Rightarrow> ''node_confirm'' | nid # rest \<Rightarrow> nid))"

definition add_if_present :: "string \<Rightarrow> transition_dict list \<Rightarrow> node_dict list \<Rightarrow> exn + node_dict list" where
  "add_if_present nid trs nodes =
     (if node_map nodes nid \<noteq> None then add_transitions nid trs nodes else Inr nodes)"

definition wire_transitions :: "node_dict list \<Rightarrow> task list \<Rightarrow> exn + node_dict list" where
  "wire_transitions nodes ts =
     (let task_groups = map (group_ids nodes) ts in
      try_bind (add_transitions ''node_greet'' [mk_transition ''user_responds'' (greet_target task_groups)] nodes)
        (\<lambda>nodes1. try_bind (chain_groups task_groups nodes1)
        (\<lambda>nodes2. try_bind
           (add_if_present ''node_confirm''
              [mk_transition ''nothing_else'' ''node_end'',
               mk_transition ''has_more_questions'' ''node_greet''] nodes2)
        (\<lambda>nodes3. try_bind (add_if_present ''node_fallback'' [mk_transition ''retry'' ''node_greet''] nodes3)
           (add_if_present ''node_transfer'' [mk_transition ''transferred'' ''node_end''])))))"

definition build_flow :: "analysis \<Rightarrow> exn + flow_dict" where
  "build_flow a =
     try_bind (wire_transitions (flow_nodes a) (tasks a))
       (\<lambda>nodes. Inr \<lparr>fl_name = domain a @ ''_flow'',
                     fl_description =
                       ''Conversation flow for '' @ agent_name_suggestion a @ '' handling ''
                       @ join '', '' (map task_name (tasks a)),
                     fl_entry_node_id = ''node_greet'',
                     fl_nodes = nodes\<rparr>)"

record agent_config_dict =
  ac_persona :: persona_dict
  ac_voice :: voice_dict
  ac_intents :: "intent_dict list"
  ac_conversation_flow :: flow_dict

definition create_agent_config :: "analysis \<Rightarrow> exn + agent_config_dict" where
  "create_agent_config a =
     try_bind (build_flow a)
       (\<lambda>flow. Inr \<lparr>ac_persona = build_persona a, ac_voice = build_voice a,
                    ac_intents = build_intents a, ac_conversation_flow = flow\<rparr>)"

section \<open>Function creator (rule mode)\<close>

text \<open>JSON values; a float is kept as the decimal literal of the source.\<close>

datatype json =
    JNull
  | JBool bool
  | JInt int
  | JFloat string
  | JStr string
  | JList "json list"
  | JDict "(string \<times> json) list"

text \<open>
  A parameter dict of a function definition. The keys read with a default are optional:
  \<open>None\<close> is a dict without the key (for \<open>default\<close> and \<open>enum\<close>, also one that
  holds \<open>None\<close>).
\<close>

record fn_param =
  fp_name :: string
  fp_type :: "string option"
  fp_description :: "string option"
  fp_required :: "bool option"
  fp_default :: "json option"
  fp_enum :: "string list option"

record endpoint_dict =
  ed_url :: string
  ed_method :: string
  ed_headers :: "(string \<times> string) list"
  ed_auth_type :: "string option"
  ed_timeout_seconds :: int

record fn_def =
  fd_name :: string
  fd_description :: "string option"
  fd_parameters :: "fn_param list"
  fd_returns_description :: "string option"
  fd_api_endpoint :: "endpoint_dict option"
  fd_mock_response :: "json option"

definition build_parameter :: "param_req \<Rightarrow> fn_param" where
  "build_parameter p =
     \<lparr>fp_name = pr_name p,
      fp_type = Some (pr_type p),
      fp_description = Some (pr_description p),
      fp_required = Some True,
      fp_default = None,
      fp_enum = None\<rparr>"

definition infer_http_method :: "string \<Rightarrow> string \<Rightarrow> string" where
  "infer_http_method name purpose =
     (let name_lower = lower name; purpose_lower = lower purpose in
      if any_in [''get'', ''fetch'', ''list'', ''check'', ''search'', ''find'', ''lookup''] name_lower then ''GET''
      else if any_in [''create'', ''book'', ''schedule'', ''submit'', ''register''] name_lower then ''POST''
      else if any_in [''update'', ''modify'', ''change''] name_lower then ''PUT''
      else if any_in [''delete'', ''cancel'', ''remove''] name_lower then ''DELETE''
      else if any_in [''retrieve'', ''query'', ''look up''] purpose_lower then ''GET''
      else ''POST'')"

text \<open>\<open>s.split(sep)\<close> for a one-character separator.\<close>

fun split_on :: "char \<Rightarrow> string \<Rightarrow> string list" where
  "split_on sep [] = [[]]"
| "split_on sep (c # cs) =
     (if c = sep then [] # split_on sep cs
      else (case split_on sep cs of [] \<Rightarrow> [[c]] | p # ps \<Rightarrow> (c # p) # ps))"

definition verbs :: "string list" where
  "verbs = [''get'', ''fetch'', ''create'', ''book'', ''update'', ''delete'', ''check'', ''list'',
            ''search'', ''submit'', ''cancel'']"

definition build_endpoint :: "string \<Rightarrow> string \<Rightarrow> fn_param list \<Rightarrow> endpoint_dict" where
  "build_endpoint name method parameters =
     (let parts = split_on (CHR ''_'') name;
          kept = filter (\<lambda>p. lower p \<notin> set verbs) parts;
          resource_parts = (if kept = [] then (if length parts > 1 then tl parts else parts) else kept);
          url_path = join ''/'' resource_parts;
          id_params = filter (\<lambda>p. str_in ''id'' (lower (fp_name p))) parameters;
          url_path' = (if method = ''GET''
                       then (case id_params of [] \<Rightarrow> url_path
                             | p # ps \<Rightarrow> url_path @ ''/{'' @ fp_name p @ ''}'')
                       else url_path)
      in \<lparr>ed_url = ''/api/v1/'' @ url_path',
          ed_method = method,
          ed_headers = [(''Content-Type'', ''application/json'')],
          ed_auth_type = Some ''bearer'',
          ed_timeout_seconds = 10\<rparr>)"

definition mock_templates :: "(string \<times> json) list" where
  "mock_templates =
    [(''appointment'', JDict
       [(''success'', JBool True),
        (''data'', JDict
          [(''available_slots'', JList
             [JDict [(''date'', JStr ''2026-02-24''), (''time'', JStr ''09:00 AM''), (''available'', JBool True)],
              JDict [(''date'', JStr ''2026-02-24''), (''time'', JStr ''10:30 AM''), (''available'', JBool True)],
              JDict [(''date'', JStr ''2026-02-24''), (''time'', JStr ''02:00 PM''), (''available'', JBool True)]]),
           (''timezone'', JStr ''America/New_York'')]),
        (''message'', JStr ''Available slots retrieved successfully'')]),
     (''book'', JDict
       [(''success'', JBool True),
        (''data'', JDict
          [(''booking_id'', JStr ''BK-20260224-001''),
           (''status'', JStr ''confirmed''),
           (''confirmation_code'', JStr ''CONF-7829''),
           (''date'', JStr ''2026-02-24''),
           (''time'', JStr ''10:30 AM'')]),
        (''message'', JStr ''Appointment booked successfully'')]),
     (''order'', JDict
       [(''success'', JBool True),
        (''data'', JDict
          [(''order_id'', JStr ''ORD-2026-4521''),
           (''status'', JStr ''shipped''),
           (''tracking_number'', JStr ''1Z999AA10123456784''),
           (''estimated_delivery'', JStr ''2026-02-26''),
           (''items'', JList
             [JDict [(''name'', JStr ''Product A''), (''quantity'', JInt 1), (''price'', JFloat ''29.99'')]])]),
        (''message'', JStr ''Order details retrieved successfully'')]),
     (''account'', JDict
       [(''success'', JBool True),
        (''data'', JDict
          [(''account_id'', JStr ''ACC-78291''),
           (''name'', JStr ''John Smith''),
           (''status'', JStr ''active''),
           (''balance'', JFloat ''1250.00''),
           (''last_activity'', JStr ''2026-02-23'')]),
        (''message'', JStr ''Account information retrieved successfully'')]),
     (''cancel'', JDict
       [(''success'', JBool True),
        (''data'', JDict
          [(''cancellation_id'', JStr ''CAN-20260224-003''),
           (''status'', JStr ''cancelled''),
           (''refund_amount'', JFloat ''29.99''),
           (''refund_eta'', JStr ''3-5 business days'')]),
        (''message'', JStr ''Cancellation processed successfully'')]),
     (''transfer'', JDict
       [(''success'', JBool True),
        (''data'', JDict
          [(''transfer_id'', JStr ''TRF-001''),
           (''department'', JStr ''Customer Support''),
           (''estimated_wait'', JStr ''2 minutes''),
           (''queue_position'', JInt 3)]),
        (''message'', JStr ''Transfer initiated'')]),
     (''verify'', JDict
       [(''success'', JBool True),
        (''data'', JDict
          [(''verified'', JBool True),
           (''customer_id'', JStr ''CUST-45678''),
           (''name'', JStr ''John Smith'')]),
        (''message'', JStr ''Customer verified successfully'')])]"

definition generate_mock_response :: "string \<Rightarrow> json" where
  "generate_mock_response name =
     (case find (\<lambda>(keyword, template). str_in keyword (lower name)) mock_templates of
        Some (keyword, template) \<Rightarrow> template
      | None \<Rightarrow> JDict
          [(''success'', JBool True),
           (''data'', JDict
             [(''result'', JStr (''Operation '' @ [CHR 0x27] @ name @ [CHR 0x27] @ '' completed successfully'')),
              (''id'', JStr ''RES-20260224-001''),
              (''timestamp'', JStr ''2026-02-24T10:30:00Z'')]),
           (''message'', JStr (title (replace_str ''_'' '' '' name) @ '' completed successfully''))])"

definition build_function :: "fn_req \<Rightarrow> fn_def" where
  "build_function fn_req =
     (let name = fr_name fn_req;
          purpose = fr_purpose fn_req;
          expected_output = fr_expected_output fn_req;
          parameters = map build_parameter (fr_input_params fn_req);
          method = infer_http_method name purpose
      in \<lparr>fd_name = name,
          fd_description = Some (purpose @ ''. This function is called during the conversation when ''
                                 @ ''the agent needs to '' @ lower purpose @ ''. ''
                                 @ ''Returns: '' @ expected_output),
          fd_parameters = parameters,
          fd_returns_description = Some expected_output,
          fd_api_endpoint = Some (build_endpoint name method parameters),
          fd_mock_response = Some (generate_mock_response name)\<rparr>)"

definition create_functions :: "fn_req list \<Rightarrow> fn_def list" where
  "create_functions fns = map build_function fns"

subsection \<open>OpenAI tool schemas\<close>

text \<open>
  A tool schema is the dict \<open>{type: function, function: {name, description, parameters:
  {type: object, properties, required}}}\<close>; the record holds its four varying parts.
\<close>

record tool_property =
  tp_type :: string
  tp_description :: string
  tp_enum :: "string list option"
  tp_default :: "json option"

record tool_schema =
  ts_name :: string
  ts_description :: string
  ts_properties :: "(string \<times> tool_property) list"
  ts_required :: "string list"

text \<open>
  \<open>properties[name] = prop\<close> on a dict: a new key goes to the end, an existing key keeps
  its place and takes the new value.
\<close>

fun dict_set :: "'k \<Rightarrow> 'v \<Rightarrow> ('k \<times> 'v) list \<Rightarrow> ('k \<times> 'v) list" where
  "dict_set k v [] = [(k, v)]"
| "dict_set k v ((k', v') # kvs) = (if k' = k then (k, v) # kvs else (k', v') # dict_set k v kvs)"

definition tool_prop :: "fn_param \<Rightarrow> tool_property" where
  "tool_prop p =
     \<lparr>tp_type = (case fp_type p of None \<Rightarrow> ''string'' | Some t \<Rightarrow> t),
      tp_description = (case fp_description p of None \<Rightarrow> [] | Some d \<Rightarrow> d),
      tp_enum = (case fp_enum p of None \<Rightarrow> None | Some e \<Rightarrow> if e \<noteq> [] then Some e else None),
      tp_default = (case fp_default p of None \<Rightarrow> None | Some JNull \<Rightarrow> None | Some d \<Rightarrow> Some d)\<rparr>"

text \<open>One round of the parameter loop: the state is (properties, required).\<close>

definition tool_param_step ::
  "(string \<times> tool_property) list \<times> string list \<Rightarrow> fn_param \<Rightarrow> (string \<times> tool_property) list \<times> string list" where
  "tool_param_step st p =
     (case st of (properties, required) \<Rightarrow>
        (dict_set (fp_name p) (tool_prop p) properties,
         (if (case fp_required p of None \<Rightarrow> True | Some r \<Rightarrow> r) then required @ [fp_name p] else required)))"

definition to_openai_tool :: "fn_def \<Rightarrow> tool_schema" where
  "to_openai_tool fn =
     (case foldl tool_param_step ([], []) (fd_parameters fn) of (properties, required) \<Rightarrow>
        \<lparr>ts_name = fd_name fn,
         ts_description = (case fd_description fn of None \<Rightarrow> [] | Some d \<Rightarrow> d),
         ts_properties = properties,
         ts_required = required\<rparr>)"

definition to_openai_tools :: "fn_def list \<Rightarrow> tool_schema list" where
  "to_openai_tools functions = map to_openai_tool functions"

section \<open>Configuration models\<close>

datatype VoiceGender = MALE | FEMALE | NEUTRAL

datatype VoiceProvider = GOOGLE | AZURE | ELEVENLABS | AWS_POLLY

datatype LanguageCode = EN_US | EN_GB | ES_ES | FR_FR | DE_DE | HI_IN | JA_JP

datatype ParamType = STRING | INTEGER | NUMBER | BOOLEAN | ARRAY | OBJECT

datatype HTTPMethod = GET | POST | PUT | PATCH | DELETE

datatype NodeType =
  GREETING | COLLECT_INFO | API_CALL | DECISION | RESPONSE | TRANSFER | END | CONFIRM | FALLBACK

datatype AgentStatus = DRAFT | TESTING | DEPLOYED | ARCHIVED

definition voice_genders :: "(string \<times> VoiceGender) list" where
  "voice_genders = [(''male'', MALE), (''female'', FEMALE), (''neutral'', NEUTRAL)]"

definition voice_providers :: "(string \<times> VoiceProvider) list" where
  "voice_providers =
     [(''google'', GOOGLE), (''azure'', AZURE), (''elevenlabs'', ELEVENLABS), (''aws_polly'', AWS_POLLY)]"

definition language_codes :: "(string \<times> LanguageCode) list" where
  "language_codes =
     [(''en-US'', EN_US), (''en-GB'', EN_GB), (''es-ES'', ES_ES), (''fr-FR'', FR_FR),
      (''de-DE'', DE_DE), (''hi-IN'', HI_IN), (''ja-JP'', JA_JP)]"

definition param_types :: "(string \<times> ParamType) list" where
  "param_types =
     [(''string'', STRING), (''integer'', INTEGER), (''number'', NUMBER), (''boolean'', BOOLEAN),
      (''array'', ARRAY), (''object'', OBJECT)]"

definition http_methods :: "(string \<times> HTTPMethod) list" where
  "http_methods = [(''GET'', GET), (''POST'', POST), (''PUT'', PUT), (''PATCH'', PATCH), (''DELETE'', DELETE)]"

definition node_types :: "(string \<times> NodeType) list" where
  "node_types =
     [(''greeting'', GREETING), (''collect_info'', COLLECT_INFO), (''api_call'', API_CALL),
      (''decision'', DECISION), (''response'', RESPONSE), (''transfer'', TRANSFER), (''end'', END),
      (''confirm'', CONFIRM), (''fallback'', FALLBACK)]"

text \<open>The \<open>.value\<close> of a language code, as \<open>process_request\<close> reads it off the request.\<close>

fun language_value :: "LanguageCode \<Rightarrow> string" where
  "language_value EN_US = ''en-US''"
| "language_value EN_GB = ''en-GB''"
| "language_value ES_ES = ''es-ES''"
| "language_value FR_FR = ''fr-FR''"
| "language_value DE_DE = ''de-DE''"
| "language_value HI_IN = ''hi-IN''"
| "language_value JA_JP = ''ja-JP''"

text \<open>
  Validation of a field on model construction: an enum field takes the member whose value
  is the given string, a bounded number must lie in its range; anything else raises a
  validation error, whose text is not modelled beyond the name of the field.
\<close>

definition enum_field :: "string \<Rightarrow> (string \<times> 'a) list \<Rightarrow> string \<Rightarrow> exn + 'a" where
  "enum_field field members s =
     (case map_of members s of None \<Rightarrow> Inl (ValidationError field) | Some v \<Rightarrow> Inr v)"

definition range_field :: "string \<Rightarrow> 'a::linorder \<Rightarrow> 'a \<Rightarrow> 'a \<Rightarrow> exn + 'a" where
  "range_field field lo hi x = (if lo \<le> x \<and> x \<le> hi then Inr x else Inl (ValidationError field))"

record VoiceConfig =
  vc_provider :: VoiceProvider
  vc_voice_id :: string
  vc_gender :: VoiceGender
  vc_language :: LanguageCode
  vc_speaking_rate :: rat
  vc_pitch :: rat

record PersonaConfig =
  pc_name :: string
  pc_role :: string
  pc_personality_traits :: "string list"
  pc_greeting_style :: string
  pc_system_prompt :: string
  pc_fallback_message :: string
  pc_escalation_message :: string
  pc_max_retries :: int

record TrainingPhrase =
  trp_text :: string
  trp_language :: LanguageCode

record IntentDefinition =
  intent_id :: string
  id_name :: string
  id_description :: string
  id_training_phrases :: "TrainingPhrase list"
  id_priority :: int

record FunctionParameter =
  prm_name :: string
  prm_type :: ParamType
  prm_description :: string
  prm_required :: bool
  prm_default :: "json option"
  prm_enum :: "string list option"

record APIEndpoint =
  ep_url :: string
  ep_method :: HTTPMethod
  ep_headers :: "(string \<times> string) list"
  ep_auth_type :: "string option"
  ep_timeout_seconds :: int

record FunctionDefinition =
  function_id :: string
  fdef_name :: string
  fdef_description :: string
  fdef_parameters :: "FunctionParameter list"
  fdef_returns_description :: string
  fdef_api_endpoint :: "APIEndpoint option"
  fdef_mock_response :: "json option"

record FlowTransition =
  ft_condition :: string
  ft_target_node_id :: string

record FlowNode =
  fnode_id :: string
  fnode_type :: NodeType
  fnode_label :: string
  fnode_prompt_text :: "string option"
  fnode_collect_slot :: "string option"
  fnode_function_call :: "string option"
  fnode_transitions :: "FlowTransition list"

record ConversationFlow =
  flow_id :: string
  cf_name :: string
  cf_description :: string
  cf_entry_node_id :: string
  cf_nodes :: "FlowNode list"

record DeploymentConfig =
  dc_platform :: string
  dc_phone_number :: "string option"
  dc_webhook_url :: "string option"
  dc_environment :: string
  dc_max_concurrent_calls :: int
  dc_recording_enabled :: bool
  dc_analytics_enabled :: bool

record CXAgentConfig =
  agent_id :: string
  cx_version :: string
  cx_status :: AgentStatus
  created_at :: string
  cx_persona :: PersonaConfig
  cx_voice :: VoiceConfig
  cx_intents :: "IntentDefinition list"
  cx_functions :: "FunctionDefinition list"
  cx_conversation_flow :: "ConversationFlow option"
  cx_deployment :: DeploymentConfig
  cx_metadata :: "(string \<times> string) list"

record AgentCreateRequest =
  user_prompt :: string
  rq_language :: LanguageCode
  rq_platform :: string

record AgentCreateResponse =
  success :: bool
  message :: string
  agent_config :: "CXAgentConfig option"
  openai_tools_schema :: "tool_schema list option"
  raw_analysis :: "analysis option"

text \<open>
  What a request reads from outside the program: the hexadecimal digits of the \<open>n\<close>-th
  random UUID drawn by a default factory, and the clock reading, already in ISO format,
  taken when the configuration is assembled.
\<close>

record world =
  uuid4_hex :: "nat \<Rightarrow> string"
  utcnow_isoformat :: string

text \<open>The model method \<open>to_openai_tool_schema\<close> and \<open>get_openai_tools\<close>.\<close>

fun param_type_value :: "ParamType \<Rightarrow> string" where
  "param_type_value STRING = ''string''"
| "param_type_value INTEGER = ''integer''"
| "param_type_value NUMBER = ''number''"
| "param_type_value BOOLEAN = ''boolean''"
| "param_type_value ARRAY = ''array''"
| "param_type_value OBJECT = ''object''"

definition schema_param_step ::
  "(string \<times> tool_property) list \<times> string list \<Rightarrow> FunctionParameter \<Rightarrow> (string \<times> tool_property) list \<times> string list" where
  "schema_param_step st p =
     (case st of (properties, required) \<Rightarrow>
        (dict_set (prm_name p)
           \<lparr>tp_type = param_type_value (prm_type p),
            tp_description = prm_description p,
            tp_enum = (case prm_enum p of None \<Rightarrow> None | Some e \<Rightarrow> if e \<noteq> [] then Some e else None),
            tp_default = (case prm_default p of None \<Rightarrow> None | Some JNull \<Rightarrow> None | Some d \<Rightarrow> Some d)\<rparr>
           properties,
         (if prm_required p then required @ [prm_name p] else required)))"

definition to_openai_tool_schema :: "FunctionDefinition \<Rightarrow> tool_schema" where
  "to_openai_tool_schema f =
     (case foldl schema_param_step ([], []) (fdef_parameters f) of (properties, required) \<Rightarrow>
        \<lparr>ts_name = fdef_name f,
         ts_description = fdef_description f,
         ts_properties = properties,
         ts_required = required\<rparr>)"

definition get_openai_tools :: "CXAgentConfig \<Rightarrow> tool_schema list" where
  "get_openai_tools cfg = map to_openai_tool_schema (cx_functions cfg)"

section \<open>Merging and the request pipeline (orchestrator)\<close>

fun map_exn :: "('a \<Rightarrow> exn + 'b) \<Rightarrow> 'a list \<Rightarrow> exn + 'b list" where
  "map_exn f [] = Inr []"
| "map_exn f (x # xs) = try_bind (f x) (\<lambda>y. try_bind (map_exn f xs) (\<lambda>ys. Inr (y # ys)))"

definition merge_persona :: "persona_dict \<Rightarrow> exn + PersonaConfig" where
  "merge_persona p =
     try_bind (range_field ''max_retries'' 1 5 (pd_max_retries p))
       (\<lambda>retries. Inr
          \<lparr>pc_name = pd_name p, pc_role = pd_role p,
           pc_personality_traits = pd_personality_traits p,
           pc_greeting_style = pd_greeting_style p,
           pc_system_prompt = pd_system_prompt p,
           pc_fallback_message = pd_fallback_message p,
           pc_escalation_message = pd_escalation_message p,
           pc_max_retries = retries\<rparr>)"

definition merge_voice :: "voice_dict \<Rightarrow> exn + VoiceConfig" where
  "merge_voice v =
     try_bind (enum_field ''provider'' voice_providers (vd_provider v)) (\<lambda>provider.
     try_bind (enum_field ''gender'' voice_genders (vd_gender v)) (\<lambda>gender.
     try_bind (enum_field ''language'' language_codes (vd_language v)) (\<lambda>lang.
     try_bind (range_field ''speaking_rate'' (1 / 2) 2 (vd_speaking_rate v)) (\<lambda>rate.
     try_bind (range_field ''pitch'' (- 10) 10 (vd_pitch v)) (\<lambda>pitch.
       Inr \<lparr>vc_provider = provider, vc_voice_id = vd_voice_id v, vc_gender = gender,
            vc_language = lang, vc_speaking_rate = rate, vc_pitch = pitch\<rparr>)))))"

definition merge_phrase :: "phrase_dict \<Rightarrow> exn + TrainingPhrase" where
  "merge_phrase p =
     try_bind (enum_field ''language'' language_codes (ph_language p))
       (\<lambda>lang. Inr \<lparr>trp_text = ph_text p, trp_language = lang\<rparr>)"

text \<open>An index next to an element is the number of the UUID its default factory draws.\<close>

definition merge_intent :: "world \<Rightarrow> nat \<times> intent_dict \<Rightarrow> exn + IntentDefinition" where
  "merge_intent w ki =
     (case ki of (k, i) \<Rightarrow>
        try_bind (map_exn merge_phrase (in_training_phrases i)) (\<lambda>phs.
        try_bind (range_field ''priority'' 0 10 (in_priority i)) (\<lambda>prio.
          Inr \<lparr>intent_id = ''intent_'' @ take 8 (uuid4_hex w k),
               id_name = in_name i, id_description = in_description i,
               id_training_phrases = phs, id_priority = prio\<rparr>)))"

definition merge_parameter :: "fn_param \<Rightarrow> exn + FunctionParameter" where
  "merge_parameter p =
     try_bind (enum_field ''type'' param_types (case fp_type p of None \<Rightarrow> ''string'' | Some t \<Rightarrow> t))
       (\<lambda>ty. Inr
          \<lparr>prm_name = fp_name p, prm_type = ty,
           prm_description = (case fp_description p of None \<Rightarrow> [] | Some d \<Rightarrow> d),
           prm_required = (case fp_required p of None \<Rightarrow> True | Some r \<Rightarrow> r),
           prm_default = fp_default p,
           prm_enum = fp_enum p\<rparr>)"

definition merge_endpoint :: "endpoint_dict \<Rightarrow> exn + APIEndpoint" where
  "merge_endpoint ep =
     try_bind (enum_field ''method'' http_methods (ed_method ep)) (\<lambda>m.
     try_bind (range_field ''timeout_seconds'' 1 60 (ed_timeout_seconds ep)) (\<lambda>tmo.
       Inr \<lparr>ep_url = ed_url ep, ep_method = m, ep_headers = ed_headers ep,
            ep_auth_type = ed_auth_type ep, ep_timeout_seconds = tmo\<rparr>))"

definition merge_function :: "world \<Rightarrow> nat \<times> fn_def \<Rightarrow> exn + FunctionDefinition" where
  "merge_function w kf =
     (case kf of (k, f) \<Rightarrow>
        try_bind (map_exn merge_parameter (fd_parameters f)) (\<lambda>params.
        try_bind (case fd_api_endpoint f of
                    None \<Rightarrow> Inr None
                  | Some ep \<Rightarrow> try_bind (merge_endpoint ep) (\<lambda>e. Inr (Some e))) (\<lambda>endpoint.
          Inr \<lparr>function_id = ''fn_'' @ take 8 (uuid4_hex w k),
               fdef_name = fd_name f,
               fdef_description = (case fd_description f of None \<Rightarrow> [] | Some d \<Rightarrow> d),
               fdef_parameters = params,
               fdef_returns_description = (case fd_returns_description f of None \<Rightarrow> [] | Some d \<Rightarrow> d),
               fdef_api_endpoint = endpoint,
               fdef_mock_response = fd_mock_response f\<rparr>)))"

definition merge_node :: "node_dict \<Rightarrow> exn + FlowNode" where
  "merge_node n =
     try_bind (enum_field ''type'' node_types (node_type n))
       (\<lambda>ty. Inr
          \<lparr>fnode_id = node_id n, fnode_type = ty, fnode_label = label n,
           fnode_prompt_text = prompt_text n, fnode_collect_slot = collect_slot n,
           fnode_function_call = function_call n,
           fnode_transitions =
             map (\<lambda>t. \<lparr>ft_condition = condition t, ft_target_node_id = target_node_id t\<rparr>)
               (transitions n)\<rparr>)"

definition merge_flow :: "world \<Rightarrow> nat \<Rightarrow> flow_dict \<Rightarrow> exn + ConversationFlow" where
  "merge_flow w k fl =
     try_bind (map_exn merge_node (fl_nodes fl))
       (\<lambda>nodes. Inr
          \<lparr>flow_id = ''flow_'' @ take 8 (uuid4_hex w k),
           cf_name = fl_name fl, cf_description = fl_description fl,
           cf_entry_node_id = fl_entry_node_id fl, cf_nodes = nodes\<rparr>)"

definition deployment_for :: "string \<Rightarrow> DeploymentConfig" where
  "deployment_for plat =
     \<lparr>dc_platform = plat, dc_phone_number = None, dc_webhook_url = None,
      dc_environment = ''staging'', dc_max_concurrent_calls = 10,
      dc_recording_enabled = True, dc_analytics_enabled = True\<rparr>"

text \<open>
  \<open>llm\<close> says whether the orchestrator holds an LLM client. The UUIDs are drawn in the
  order of construction: one for each intent, one for each function, one for the flow and
  one for the agent.
\<close>

definition merge_config ::
  "bool \<Rightarrow> world \<Rightarrow> analysis \<Rightarrow> agent_config_dict \<Rightarrow> fn_def list \<Rightarrow> string \<Rightarrow> exn + CXAgentConfig" where
  "merge_config llm w a ac functions plat =
     (let n_int = length (ac_intents ac); n_fn = length functions in
      try_bind (merge_persona (ac_persona ac)) (\<lambda>persona.
      try_bind (merge_voice (ac_voice ac)) (\<lambda>voice.
      try_bind (map_exn (merge_intent w) (enumerate 0 (ac_intents ac))) (\<lambda>intents.
      try_bind (map_exn (merge_function w) (enumerate n_int functions)) (\<lambda>func_defs.
      try_bind (merge_flow w (n_int + n_fn) (ac_conversation_flow ac)) (\<lambda>flow.
        Inr \<lparr>agent_id = ''agent_'' @ take 12 (uuid4_hex w (n_int + n_fn + 1)),
             cx_version = ''1.0.0'',
             cx_status = DRAFT,
             created_at = utcnow_isoformat w @ ''Z'',
             cx_persona = persona,
             cx_voice = voice,
             cx_intents = intents,
             cx_functions = func_defs,
             cx_conversation_flow = Some flow,
             cx_deployment = deployment_for plat,
             cx_metadata = [(''source_prompt'', domain a),
                            (''generation_mode'', if llm then ''llm'' else ''rule_based'')]\<rparr>))))))"

text \<open>
  The three collaborators of \<open>process_request\<close>. With an LLM client their answers come
  from outside the program; without one they are the rule-based generators above.
\<close>

record stages =
  st_llm :: bool
  st_analyze_request :: "string \<Rightarrow> string \<Rightarrow> string \<Rightarrow> exn + analysis"
  st_create_agent_config :: "analysis \<Rightarrow> exn + agent_config_dict"
  st_create_functions :: "fn_req list \<Rightarrow> exn + fn_def list"

text \<open>The body of the \<open>try\<close> block: analysis, agent draft, functions, merge, tool schemas.\<close>

definition pipeline ::
  "stages \<Rightarrow> world \<Rightarrow> AgentCreateRequest \<Rightarrow> exn + (CXAgentConfig \<times> tool_schema list \<times> analysis)" where
  "pipeline st w request =
     try_bind (st_analyze_request st (user_prompt request) (language_value (rq_language request))
                 (rq_platform request)) (\<lambda>a.
     try_bind (st_create_agent_config st a) (\<lambda>agent_config_raw.
     try_bind (st_create_functions st (functions_needed a)) (\<lambda>functions_raw.
     try_bind (merge_config (st_llm st) w a agent_config_raw functions_raw (rq_platform request))
       (\<lambda>cfg. Inr (cfg, to_openai_tools functions_raw, a)))))"

definition process_request_with :: "stages \<Rightarrow> world \<Rightarrow> AgentCreateRequest \<Rightarrow> AgentCreateResponse" where
  "process_request_with st w request =
     (case pipeline st w request of
        Inr (cfg, openai_tools, a) \<Rightarrow>
          \<lparr>success = True,
           message = ''Successfully created CX agent '' @ [CHR 0x27] @ pc_name (cx_persona cfg)
                     @ [CHR 0x27] @ '' with '' @ str_of_nat (length (cx_functions cfg))
                     @ '' functions and '' @ str_of_nat (length (cx_intents cfg)) @ '' intents.'',
           agent_config = Some cfg,
           openai_tools_schema = Some openai_tools,
           raw_analysis = Some a\<rparr>
      | Inl e \<Rightarrow>
          \<lparr>success = False,
           message = ''Failed to create agent: '' @ exn_text e,
           agent_config = None,
           openai_tools_schema = None,
           raw_analysis = None\<rparr>)"

definition rule_stages :: stages where
  "rule_stages =
     \<lparr>st_llm = False,
      st_analyze_request = (\<lambda>prompt lang plat. Inr (analyze_with_rules prompt lang plat)),
      st_create_agent_config = create_agent_config,
      st_create_functions = (\<lambda>fns. Inr (create_functions fns))\<rparr>"

definition process_request :: "world \<Rightarrow> AgentCreateRequest \<Rightarrow> AgentCreateResponse" where
  "process_request w request = process_request_with rule_stages w request"

section \<open>Vocabulary of the specification\<close>

text \<open>
  The notions in which the properties of the pipeline are stated: the edges that wiring
  adds, what a node or a function says in either of its two representations, the parts of
  a configuration that a default factory generates, and the nodes of a conversation flow
  that are reached from its entry node. The relations between node lists describe what
  wiring may change.
\<close>

text \<open>A node without its transitions: everything about it that wiring leaves alone.\<close>

definition unwired :: "node_dict \<Rightarrow> node_dict" where
  "unwired n = n\<lparr>transitions := []\<rparr>"

text \<open>
  \<open>extends nodes nodes'\<close>: the second list holds the same nodes in the same order, each
  with at least the transitions it had.
\<close>

definition extends :: "node_dict list \<Rightarrow> node_dict list \<Rightarrow> bool" where
  "extends nodes nodes' \<longleftrightarrow>
     map unwired nodes' = map unwired nodes \<and>
     list_all2 (\<lambda>n n'. set (transitions n) \<subseteq> set (transitions n')) nodes nodes'"

text \<open>
  Some node with the id \<open>a\<close> has a transition whose target is the id \<open>b\<close>.
\<close>

definition has_edge :: "node_dict list \<Rightarrow> string \<Rightarrow> string \<Rightarrow> bool" where
  "has_edge nodes a b \<longleftrightarrow> (\<exists>n \<in> set nodes. node_id n = a \<and> b \<in> target_node_id ` set (transitions n))"

text \<open>The type of the node that \<open>node_map\<close> holds for an id.\<close>

definition type_at :: "node_dict list \<Rightarrow> string \<Rightarrow> string option" where
  "type_at nodes nid = map_option (\<lambda>i. node_type (nodes ! i)) (node_map nodes nid)"

text \<open>A wiring step succeeds and only extends the node list.\<close>

definition wires_ok :: "node_dict list \<Rightarrow> exn + node_dict list \<Rightarrow> bool" where
  "wires_ok nodes r \<longleftrightarrow> (\<exists>nodes'. r = Inr nodes' \<and> extends nodes nodes')"

text \<open>
  Within a group, every id whose node collects a slot or calls an API has an edge to the
  id that follows it.
\<close>

definition chained :: "node_dict list \<Rightarrow> string list \<Rightarrow> bool" where
  "chained nodes g \<longleftrightarrow>
     (\<forall>i. Suc i < length g \<longrightarrow>
          type_at nodes (g ! i) \<in> {Some ''collect_info'', Some ''api_call''} \<longrightarrow>
          has_edge nodes (g ! i) (g ! Suc i))"

text \<open>The \<open>.value\<close> of a node type and of an HTTP method.\<close>

fun node_type_value :: "NodeType \<Rightarrow> string" where
  "node_type_value GREETING = ''greeting''"
| "node_type_value COLLECT_INFO = ''collect_info''"
| "node_type_value API_CALL = ''api_call''"
| "node_type_value DECISION = ''decision''"
| "node_type_value RESPONSE = ''response''"
| "node_type_value TRANSFER = ''transfer''"
| "node_type_value END = ''end''"
| "node_type_value CONFIRM = ''confirm''"
| "node_type_value FALLBACK = ''fallback''"

text \<open>What a node says, whichever of the two representations holds it.\<close>

type_synonym node_view = "string \<times> string \<times> string option \<times> string option \<times> (string \<times> string) list"

definition dict_view :: "node_dict \<Rightarrow> node_view" where
  "dict_view n =
     (node_id n, node_type n, collect_slot n, function_call n,
      map (\<lambda>t. (condition t, target_node_id t)) (transitions n))"

definition model_view :: "FlowNode \<Rightarrow> node_view" where
  "model_view m =
     (fnode_id m, node_type_value (fnode_type m), fnode_collect_slot m, fnode_function_call m,
      map (\<lambda>t. (ft_condition t, ft_target_node_id t)) (fnode_transitions m))"

text \<open>
  A brief whose voice gender, language and parameter types are values of the enums that
  the configuration models validate them against.
\<close>

definition valid_brief :: "analysis \<Rightarrow> bool" where
  "valid_brief a \<longleftrightarrow>
     map_of voice_genders (voice_gender a) \<noteq> None \<and>
     map_of language_codes (language a) \<noteq> None \<and>
     list_all (\<lambda>fn. list_all (\<lambda>p. map_of param_types (pr_type p) \<noteq> None) (fr_input_params fn))
       (functions_needed a)"

text \<open>An intent dict that passes validation for a language.\<close>

definition intent_ok :: "string \<Rightarrow> intent_dict \<Rightarrow> bool" where
  "intent_ok lang i \<longleftrightarrow>
     (\<exists>texts. in_training_phrases i = phrases lang texts) \<and> 0 \<le> in_priority i \<and> in_priority i \<le> 10"

fun http_method_value :: "HTTPMethod \<Rightarrow> string" where
  "http_method_value GET = ''GET''"
| "http_method_value POST = ''POST''"
| "http_method_value PUT = ''PUT''"
| "http_method_value PATCH = ''PATCH''"
| "http_method_value DELETE = ''DELETE''"

text \<open>The name of a function and the HTTP method of its endpoint, in either representation.\<close>

definition dict_function_view :: "fn_def \<Rightarrow> string \<times> string option" where
  "dict_function_view f = (fd_name f, map_option ed_method (fd_api_endpoint f))"

definition function_view :: "FunctionDefinition \<Rightarrow> string \<times> string option" where
  "function_view d = (fdef_name d, map_option (\<lambda>e. http_method_value (ep_method e)) (fdef_api_endpoint d))"

text \<open>The brief that rule-based analysis makes of a request.\<close>

definition brief_of :: "AgentCreateRequest \<Rightarrow> analysis" where
  "brief_of rq = analyze_with_rules (user_prompt rq) (language_value (rq_language rq)) (rq_platform rq)"

text \<open>
  Blanking the fields that a default factory fills from a random UUID or from the clock:
  \<open>intent_id\<close>, \<open>function_id\<close>, \<open>flow_id\<close>, \<open>agent_id\<close> and \<open>created_at\<close>.
\<close>

definition blank_intent :: "IntentDefinition \<Rightarrow> IntentDefinition" where
  "blank_intent d = d\<lparr>intent_id := []\<rparr>"

definition blank_function :: "FunctionDefinition \<Rightarrow> FunctionDefinition" where
  "blank_function f = f\<lparr>function_id := []\<rparr>"

definition blank_flow :: "ConversationFlow \<Rightarrow> ConversationFlow" where
  "blank_flow cf = cf\<lparr>flow_id := []\<rparr>"

definition blank_generated :: "CXAgentConfig \<Rightarrow> CXAgentConfig" where
  "blank_generated cfg =
     cfg\<lparr>agent_id := [], created_at := [],
         cx_intents := map blank_intent (cx_intents cfg),
         cx_functions := map blank_function (cx_functions cfg),
         cx_conversation_flow := map_option blank_flow (cx_conversation_flow cfg)\<rparr>"

text \<open>Two results agree up to \<open>b\<close>: the same error, or values with the same image under \<open>b\<close>.\<close>

definition agree :: "('a \<Rightarrow> 'b) \<Rightarrow> exn + 'a \<Rightarrow> exn + 'a \<Rightarrow> bool" where
  "agree b r1 r2 \<longleftrightarrow> map_sum id b r1 = map_sum id b r2"

definition blank_response :: "AgentCreateResponse \<Rightarrow> AgentCreateResponse" where
  "blank_response r = r\<lparr>agent_config := map_option blank_generated (agent_config r)\<rparr>"

text \<open>The names of the tasks that detection can add to the greeting.\<close>

definition known_task_names :: "string list" where
  "known_task_names =
     [''Collect Customer Name'', ''Collect Email'', ''Collect Phone Number'', ''Appointment Booking'',
      ''Order Status Check'', ''Account Inquiry'', ''File Complaint'', ''Cancellation Processing'',
      ''Confirm Availability'', ''FAQ & Information'', ''General Inquiry'']"

text \<open>
  A step of a conversation leads from a node of the flow to a node of the flow whose id
  is the target of one of its transitions. The step is taken from the transitions of the
  node itself, not from those of another node with its id; where several nodes carry the
  target id the step may lead to any of them, so that a node which no path reaches here
  is reached under no way of resolving ids to nodes.
\<close>

definition flow_steps :: "ConversationFlow \<Rightarrow> (FlowNode \<times> FlowNode) set" where
  "flow_steps cf = {(n, m). n \<in> set (cf_nodes cf) \<and> m \<in> set (cf_nodes cf)
                       \<and> fnode_id m \<in> set (map ft_target_node_id (fnode_transitions n))}"

text \<open>The nodes reached from a node that carries the entry id.\<close>

definition reachable_nodes :: "ConversationFlow \<Rightarrow> FlowNode set" where
  "reachable_nodes cf = {m. \<exists>n \<in> set (cf_nodes cf).
                              fnode_id n = cf_entry_node_id cf \<and> (n, m) \<in> (flow_steps cf)\<^sup>*}"

text \<open>
  The ids of the greeting node and of the two nodes that close a conversation. A list of
  nodes is sealed when each node with one of these ids has transitions to these ids only
  and neither collects a slot nor calls an API.
\<close>

definition core_ids :: "string list" where
  "core_ids = [''node_greet'', ''node_confirm'', ''node_end'']"

definition sealed :: "node_view list \<Rightarrow> bool" where
  "sealed vs = list_all (\<lambda>(i, ty, slot, fn, trs). i \<in> set core_ids \<longrightarrow>
                   list_all (\<lambda>(c, t). t \<in> set core_ids) trs \<and> ty \<noteq> ''collect_info'' \<and> ty \<noteq> ''api_call'') vs"

text \<open>A wiring step that keeps a sealed list sealed.\<close>

definition seals :: "(node_dict list \<Rightarrow> exn + node_dict list) \<Rightarrow> bool" where
  "seals f \<longleftrightarrow> (\<forall>nodes nodes'. sealed (map dict_view nodes) \<longrightarrow> f nodes = Inr nodes'
                   \<longrightarrow> sealed (map dict_view nodes'))"

text \<open>A parameter dict counts as required when its flag is true or the key is missing.\<close>

definition flagged_required :: "fn_param \<Rightarrow> bool" where
  "flagged_required p \<longleftrightarrow> fp_required p = None \<or> fp_required p = Some True"

section \<open>Sample inputs\<close>

text \<open>
  The request of the \<open>/api/example\<close> endpoint with the brief and the wiring it leads
  to, two readings of the outside world, and a draft as an LLM-backed agent creator may
  return it.
\<close>

definition example_prompt :: string where
  "example_prompt = ''Create a support bot for appointment booking. It should greet, ask for name and date, and confirm availability via an API.''"

definition example_request :: AgentCreateRequest where
  "example_request = \<lparr>user_prompt = example_prompt, rq_language = EN_US, rq_platform = ''voiceowl''\<rparr>"

definition example_tasks :: "task list" where
  "example_tasks =
    [greet_pattern,
     mk_task ''Collect Customer Name'' ''Collect the caller's name for personalization''
       [''customer_name''] False [],
     mk_task ''Appointment Booking'' ''Book an appointment for the customer''
       [''customer_name'', ''preferred_date'', ''preferred_time''] True
       ''Check available appointment slots and book an appointment'',
     mk_task ''Confirm Availability'' ''Confirm availability via external system''
       [] True ''Verify availability through the backend API'']"

definition example_functions :: "fn_req list" where
  "example_functions =
    [\<lparr>fr_name = ''get_appointment_slots'',
      fr_purpose = ''Check available appointment slots and book an appointment'',
      fr_input_params =
        [\<lparr>pr_name = ''customer_name'', pr_type = ''string'', pr_description = ''The customer's customer name''\<rparr>,
         \<lparr>pr_name = ''preferred_date'', pr_type = ''string'', pr_description = ''The customer's preferred date''\<rparr>,
         \<lparr>pr_name = ''preferred_time'', pr_type = ''string'', pr_description = ''The customer's preferred time''\<rparr>],
      fr_expected_output = ''List of available appointment slots with dates and times''\<rparr>,
     \<lparr>fr_name = ''check_availability'',
      fr_purpose = ''Verify availability through the backend API'',
      fr_input_params = [],
      fr_expected_output = ''Availability status with available options''\<rparr>]"

definition example_brief :: analysis where
  "example_brief =
     \<lparr>domain = ''healthcare'',
      agent_name_suggestion = ''MediBot'',
      agent_role = ''Healthcare Appointment & Patient Support Agent'',
      personality_traits = [''friendly'', ''professional'', ''helpful''],
      greeting_style = ''warm'',
      language = ''en-US'',
      voice_gender = ''female'',
      tasks = example_tasks,
      functions_needed = example_functions,
      flow_summary =
        [''Step 1: Greet the caller and introduce the service'',
         ''Step 2: Ask for the customer's customer name'',
         ''Step 3: Ask for the customer's customer name'',
         ''Step 4: Ask for the customer's preferred date'',
         ''Step 5: Ask for the customer's preferred time'',
         ''Step 6: Check available appointment slots and book an appointment'',
         ''Step 7: Communicate the result to the caller'',
         ''Step 8: Verify availability through the backend API'',
         ''Step 9: Communicate the result to the caller'',
         ''Step 10: Ask if there's anything else'',
         ''Step 11: End the call politely''],
      ambiguities = [],
      platform = ''voiceowl'',
      user_requested_slots = [''customer_name'', ''preferred_date'']\<rparr>"

text \<open>The nodes of the flow for the example: id, type, slot, function and transitions.\<close>

definition example_views :: "node_view list" where
  "example_views =
    [(''node_greet'', ''greeting'', None, None, [(''user_responds'', ''node_confirm'')]),
     (''node_collect_customer_name'', ''collect_info'', Some ''customer_name'', None, []),
     (''node_collect_customer_name'', ''collect_info'', Some ''customer_name'', None,
        [(''slot_filled'', ''node_confirm''), (''slot_filled'', ''node_collect_preferred_date'')]),
     (''node_collect_preferred_date'', ''collect_info'', Some ''preferred_date'', None,
        [(''slot_filled'', ''node_collect_preferred_time'')]),
     (''node_collect_preferred_time'', ''collect_info'', Some ''preferred_time'', None,
        [(''slot_filled'', ''node_api_appointment_booking'')]),
     (''node_api_appointment_booking'', ''api_call'', None, Some ''get_appointment_slots'',
        [(''api_response_received'', ''node_decision_appointment_booking'')]),
     (''node_decision_appointment_booking'', ''decision'', None, None,
        [(''success'', ''node_success_appointment_booking''),
         (''failure'', ''node_failure_appointment_booking'')]),
     (''node_success_appointment_booking'', ''response'', None, None, [(''continue'', ''node_confirm'')]),
     (''node_failure_appointment_booking'', ''response'', None, None,
        [(''user_wants_transfer'', ''node_transfer''), (''user_declines_transfer'', ''node_confirm'')]),
     (''node_api_confirm_availability'', ''api_call'', None, Some ''get_appointment_slots'',
        [(''api_response_received'', ''node_decision_confirm_availability'')]),
     (''node_decision_confirm_availability'', ''decision'', None, None,
        [(''success'', ''node_success_confirm_availability''),
         (''failure'', ''node_failure_confirm_availability'')]),
     (''node_success_confirm_availability'', ''response'', None, None, [(''continue'', ''node_confirm'')]),
     (''node_failure_confirm_availability'', ''response'', None, None,
        [(''user_wants_transfer'', ''node_transfer''), (''user_declines_transfer'', ''node_confirm'')]),
     (''node_confirm'', ''confirm'', None, None,
        [(''nothing_else'', ''node_end''), (''has_more_questions'', ''node_greet'')]),
     (''node_fallback'', ''fallback'', None, None, [(''retry'', ''node_greet'')]),
     (''node_transfer'', ''transfer'', None, None, [(''transferred'', ''node_end'')]),
     (''node_end'', ''end'', None, None, [])]"

text \<open>Two invocations one second apart, with different random UUIDs.\<close>

definition world_a :: world where
  "world_a = \<lparr>uuid4_hex = (\<lambda>n. ''0123456789abcdef0123456789abcdef''),
              utcnow_isoformat = ''2026-02-24T10:30:00.000000''\<rparr>"

definition world_b :: world where
  "world_b = \<lparr>uuid4_hex = (\<lambda>n. ''fedcba9876543210fedcba9876543210''),
              utcnow_isoformat = ''2026-02-24T10:30:01.000000''\<rparr>"




text \<open>A function definition dict with one parameter of each kind of \<open>required\<close> flag.\<close>

definition sample_param :: "string \<Rightarrow> bool option \<Rightarrow> fn_param" where
  "sample_param n r =
     \<lparr>fp_name = n, fp_type = None, fp_description = None, fp_required = r, fp_default = None,
      fp_enum = None\<rparr>"

definition sample_function :: fn_def where
  "sample_function =
     \<lparr>fd_name = ''get_order_status'', fd_description = None,
      fd_parameters = [sample_param ''order_number'' None, sample_param ''note'' (Some False),
                       sample_param ''email'' (Some True)],
      fd_returns_description = None, fd_api_endpoint = None, fd_mock_response = None\<rparr>"

section \<open>Facts about the string primitives\<close>

lemma str_in_sublist: "str_in kw text \<longleftrightarrow> sublist kw text"
  by (induction "text") (auto simp: sublist_Cons_right)


lemma str_in_trans: "str_in a b \<Longrightarrow> str_in b c \<Longrightarrow> str_in a c"
  unfolding str_in_sublist by (rule sublist_order.order.trans)

section \<open>Wiring only appends transitions\<close>

lemma try_bind_Inr_iff:
  "try_bind m f = Inr y \<longleftrightarrow> (\<exists>x. m = Inr x \<and> f x = Inr y)"
  by (cases m) (simp_all add: try_bind_def)

lemma try_bind_Inr [simp]: "try_bind (Inr x) f = f x"
  by (simp add: try_bind_def)

lemma try_bind_Inl [simp]: "try_bind (Inl e) f = Inl e"
  by (simp add: try_bind_def)

lemma last_index_SomeD:
  "last_index P xs = Some i \<Longrightarrow> i < length xs \<and> P (xs ! i)"
proof (induction xs arbitrary: i)
  case Nil
  then show ?case by simp
next
  case (Cons x xs)
  then show ?case
    by (cases "last_index P xs") (auto split: if_splits)
qed

lemma last_index_None_iff:
  "last_index P xs = None \<longleftrightarrow> (\<forall>x \<in> set xs. \<not> P x)"
  by (induction xs) (auto split: option.splits)

lemma last_index_map:
  "last_index (\<lambda>v. v = k) (map f xs) = last_index (\<lambda>x. f x = k) xs"
  by (induction xs) (auto split: option.splits)

lemma node_map_ids:
  "node_map nodes nid = last_index (\<lambda>v. v = nid) (map node_id nodes)"
  by (simp add: node_map_def last_index_map)

lemma node_map_SomeD:
  "node_map nodes nid = Some i \<Longrightarrow> i < length nodes \<and> node_id (nodes ! i) = nid"
  unfolding node_map_def by (drule last_index_SomeD) simp

lemma node_map_None_iff:
  "node_map nodes nid = None \<longleftrightarrow> nid \<notin> node_id ` set nodes"
  unfolding node_map_def last_index_None_iff by auto

lemma extends_refl: "extends nodes nodes"
  by (simp add: extends_def list_all2_same)

lemma extends_trans: "extends a b \<Longrightarrow> extends b c \<Longrightarrow> extends a c"
proof -
  assume ab: "extends a b" and bc: "extends b c"
  have "list_all2 (\<lambda>n n'. set (transitions n) \<subseteq> set (transitions n')) a c"
  proof (rule list_all2_trans)
    show "list_all2 (\<lambda>n n'. set (transitions n) \<subseteq> set (transitions n')) a b"
      using ab by (simp add: extends_def)
    show "list_all2 (\<lambda>n n'. set (transitions n) \<subseteq> set (transitions n')) b c"
      using bc by (simp add: extends_def)
  qed auto
  then show ?thesis using ab bc by (simp add: extends_def)
qed

lemma unwired_fields:
  "unwired n = unwired n' \<Longrightarrow>
     node_id n = node_id n' \<and> node_type n = node_type n' \<and> function_call n = function_call n'
     \<and> label n = label n' \<and> prompt_text n = prompt_text n' \<and> collect_slot n = collect_slot n'"
  unfolding unwired_def
  by (cases n, cases n') simp

lemma extends_ids: "extends nodes nodes' \<Longrightarrow> map node_id nodes' = map node_id nodes"
proof -
  assume "extends nodes nodes'"
  then have "map unwired nodes' = map unwired nodes" by (simp add: extends_def)
  then have "map (node_id \<circ> unwired) nodes' = map (node_id \<circ> unwired) nodes"
    by (metis map_map)
  moreover have "node_id \<circ> unwired = node_id" by (rule ext) (simp add: unwired_def)
  ultimately show ?thesis by simp
qed

lemma extends_types: "extends nodes nodes' \<Longrightarrow> map node_type nodes' = map node_type nodes"
proof -
  assume "extends nodes nodes'"
  then have "map unwired nodes' = map unwired nodes" by (simp add: extends_def)
  then have "map (node_type \<circ> unwired) nodes' = map (node_type \<circ> unwired) nodes"
    by (metis map_map)
  moreover have "node_type \<circ> unwired = node_type" by (rule ext) (simp add: unwired_def)
  ultimately show ?thesis by simp
qed

lemma extends_length: "extends nodes nodes' \<Longrightarrow> length nodes' = length nodes"
  by (drule extends_ids) (metis length_map)

lemma extends_node_map: "extends nodes nodes' \<Longrightarrow> node_map nodes' = node_map nodes"
  by (rule ext) (simp add: node_map_ids extends_ids)

lemma add_transitions_extends:
  assumes "node_map nodes nid = Some i"
  shows "\<exists>nodes'. add_transitions nid trs nodes = Inr nodes' \<and> extends nodes nodes'
           \<and> transitions (nodes' ! i) = transitions (nodes ! i) @ trs"
proof -
  from assms have i: "i < length nodes" by (simp add: node_map_SomeD)
  let ?n' = "(nodes ! i)\<lparr>transitions := transitions (nodes ! i) @ trs\<rparr>"
  let ?nodes' = "nodes[i := ?n']"
  have r: "add_transitions nid trs nodes = Inr ?nodes'"
    by (simp add: add_transitions_def assms)
  have u: "unwired ?n' = unwired (nodes ! i)" by (simp add: unwired_def)
  have "map unwired ?nodes' = (map unwired nodes)[i := unwired (nodes ! i)]"
    by (simp add: map_update u)
  also have "\<dots> = map unwired nodes"
    using i by (metis list_update_id nth_map)
  finally have s: "map unwired ?nodes' = map unwired nodes" .
  have "list_all2 (\<lambda>n n'. set (transitions n) \<subseteq> set (transitions n')) nodes ?nodes'"
    unfolding list_all2_conv_all_nth
    using i by (auto simp: nth_list_update)
  with s have "extends nodes ?nodes'" by (simp add: extends_def)
  moreover have "transitions (?nodes' ! i) = transitions (nodes ! i) @ trs"
    using i by simp
  ultimately show ?thesis using r by blast
qed

lemma has_edge_extends:
  assumes "extends nodes nodes'" and "has_edge nodes a b"
  shows "has_edge nodes' a b"
proof -
  from assms(2) obtain n where n: "n \<in> set nodes" "node_id n = a"
      "b \<in> target_node_id ` set (transitions n)"
    by (auto simp: has_edge_def)
  then obtain i where i: "i < length nodes" "nodes ! i = n"
    by (auto simp: in_set_conv_nth)
  have len: "length nodes' = length nodes" by (rule extends_length [OF assms(1)])
  have "list_all2 (\<lambda>n n'. set (transitions n) \<subseteq> set (transitions n')) nodes nodes'"
    using assms(1) by (simp add: extends_def)
  then have sub: "set (transitions (nodes ! i)) \<subseteq> set (transitions (nodes' ! i))"
    using i(1) by (simp add: list_all2_conv_all_nth)
  have "map node_id nodes' ! i = map node_id nodes ! i"
    by (simp add: extends_ids [OF assms(1)])
  then have id: "node_id (nodes' ! i) = a"
    using i n(2) len by simp
  have "nodes' ! i \<in> set nodes'" using i(1) len by simp
  moreover have "b \<in> target_node_id ` set (transitions (nodes' ! i))"
    using sub n(3) i(2) by auto
  ultimately show ?thesis unfolding has_edge_def using id by blast
qed

lemma type_at_extends: "extends nodes nodes' \<Longrightarrow> type_at nodes' nid = type_at nodes nid"
proof -
  assume e: "extends nodes nodes'"
  show ?thesis
  proof (cases "node_map nodes nid")
    case None
    then show ?thesis by (simp add: type_at_def extends_node_map [OF e])
  next
    case (Some i)
    then have i: "i < length nodes" by (simp add: node_map_SomeD)
    have "map node_type nodes' ! i = map node_type nodes ! i"
      by (simp add: extends_types [OF e])
    then have "node_type (nodes' ! i) = node_type (nodes ! i)"
      using i extends_length [OF e] by simp
    then show ?thesis by (simp add: type_at_def extends_node_map [OF e] Some)
  qed
qed

lemma wires_ok_Inr: "wires_ok nodes (Inr nodes)"
  by (simp add: wires_ok_def extends_refl)

lemma wires_ok_bind:
  assumes "wires_ok n0 m" and "\<And>n1. m = Inr n1 \<Longrightarrow> extends n0 n1 \<Longrightarrow> wires_ok n1 (f n1)"
  shows "wires_ok n0 (try_bind m f)"
proof -
  from assms(1) obtain n1 where n1: "m = Inr n1" "extends n0 n1" by (auto simp: wires_ok_def)
  from assms(2) [OF n1] obtain n2 where n2: "f n1 = Inr n2" "extends n1 n2"
    by (auto simp: wires_ok_def)
  show ?thesis
    unfolding wires_ok_def using n1 n2 extends_trans by auto
qed

lemma wires_ok_add:
  "node_map nodes nid \<noteq> None \<Longrightarrow> wires_ok nodes (add_transitions nid trs nodes)"
  using add_transitions_extends unfolding wires_ok_def by blast

lemma add_transitions_edge:
  assumes "add_transitions nid trs nodes = Inr nodes'" and "tr \<in> set trs"
  shows "has_edge nodes' nid (target_node_id tr)"
proof -
  from assms(1) obtain i where i: "node_map nodes nid = Some i"
    by (auto simp: add_transitions_def split: option.splits)
  from add_transitions_extends [OF i, of trs] assms(1)
  have e: "extends nodes nodes'" and t: "transitions (nodes' ! i) = transitions (nodes ! i) @ trs"
    by auto
  have len: "length nodes' = length nodes" by (rule extends_length [OF e])
  have il: "i < length nodes" and "node_id (nodes ! i) = nid"
    using node_map_SomeD [OF i] by auto
  moreover have "map node_id nodes' ! i = map node_id nodes ! i"
    by (simp add: extends_ids [OF e])
  ultimately have id: "node_id (nodes' ! i) = nid" using len by simp
  have "nodes' ! i \<in> set nodes'" using il len by simp
  moreover have "target_node_id tr \<in> target_node_id ` set (transitions (nodes' ! i))"
    using t assms(2) by simp
  ultimately show ?thesis unfolding has_edge_def using id by blast
qed

lemma wires_ok_add_if_present: "wires_ok nodes (add_if_present nid trs nodes)"
  by (simp add: add_if_present_def wires_ok_add wires_ok_Inr)

lemma wires_ok_decision:
  assumes "node_map nodes nid \<noteq> None"
  shows "wires_ok nodes (wire_decision nid nodes)"
proof -
  define tname where "tname = replace_str ''node_decision_'' [] nid"
  define s where "s = ''node_success_'' @ tname"
  define f where "f = ''node_failure_'' @ tname"
  have first: "wires_ok nodes
      (if node_map nodes s \<noteq> None
       then try_bind (add_transitions nid [mk_transition ''success'' s] nodes)
              (add_transitions s [mk_transition ''continue'' ''node_confirm''])
       else Inr nodes)"
  proof (cases "node_map nodes s")
    case None
    then show ?thesis by (simp add: wires_ok_Inr)
  next
    case (Some j)
    have "wires_ok nodes (try_bind (add_transitions nid [mk_transition ''success'' s] nodes)
              (add_transitions s [mk_transition ''continue'' ''node_confirm'']))"
    proof (rule wires_ok_bind)
      show "wires_ok nodes (add_transitions nid [mk_transition ''success'' s] nodes)"
        by (rule wires_ok_add [OF assms])
    next
      fix n1 assume "extends nodes n1"
      then have "node_map n1 s \<noteq> None" using Some by (simp add: extends_node_map)
      then show "wires_ok n1 (add_transitions s [mk_transition ''continue'' ''node_confirm''] n1)"
        by (rule wires_ok_add)
    qed
    then show ?thesis using Some by simp
  qed
  have second: "wires_ok n1
      (if node_map n1 f \<noteq> None
       then try_bind (add_transitions nid [mk_transition ''failure'' f] n1)
              (\<lambda>nodes2. try_bind
                 (add_transitions f [mk_transition ''user_wants_transfer'' ''node_transfer''] nodes2)
                 (add_transitions f [mk_transition ''user_declines_transfer'' ''node_confirm'']))
       else Inr n1)" if e1: "extends nodes n1" for n1
  proof (cases "node_map n1 f")
    case None
    then show ?thesis by (simp add: wires_ok_Inr)
  next
    case (Some j)
    have nid1: "node_map n1 nid \<noteq> None" using assms e1 by (simp add: extends_node_map)
    have "wires_ok n1 (try_bind (add_transitions nid [mk_transition ''failure'' f] n1)
              (\<lambda>nodes2. try_bind
                 (add_transitions f [mk_transition ''user_wants_transfer'' ''node_transfer''] nodes2)
                 (add_transitions f [mk_transition ''user_declines_transfer'' ''node_confirm''])))"
    proof (rule wires_ok_bind)
      show "wires_ok n1 (add_transitions nid [mk_transition ''failure'' f] n1)"
        by (rule wires_ok_add [OF nid1])
    next
      fix n2 assume e2: "extends n1 n2"
      then have f2: "node_map n2 f \<noteq> None" using Some by (simp add: extends_node_map)
      show "wires_ok n2 (try_bind
                 (add_transitions f [mk_transition ''user_wants_transfer'' ''node_transfer''] n2)
                 (add_transitions f [mk_transition ''user_declines_transfer'' ''node_confirm'']))"
      proof (rule wires_ok_bind)
        show "wires_ok n2 (add_transitions f [mk_transition ''user_wants_transfer'' ''node_transfer''] n2)"
          by (rule wires_ok_add [OF f2])
      next
        fix n3 assume "extends n2 n3"
        then have "node_map n3 f \<noteq> None" using f2 by (simp add: extends_node_map)
        then show "wires_ok n3 (add_transitions f [mk_transition ''user_declines_transfer'' ''node_confirm''] n3)"
          by (rule wires_ok_add)
      qed
    qed
    then show ?thesis using Some by simp
  qed
  have "wires_ok nodes (try_bind
      (if node_map nodes s \<noteq> None
       then try_bind (add_transitions nid [mk_transition ''success'' s] nodes)
              (add_transitions s [mk_transition ''continue'' ''node_confirm''])
       else Inr nodes)
      (\<lambda>n1. if node_map n1 f \<noteq> None
       then try_bind (add_transitions nid [mk_transition ''failure'' f] n1)
              (\<lambda>nodes2. try_bind
                 (add_transitions f [mk_transition ''user_wants_transfer'' ''node_transfer''] nodes2)
                 (add_transitions f [mk_transition ''user_declines_transfer'' ''node_confirm'']))
       else Inr n1))"
    by (rule wires_ok_bind [OF first]) (rule second)
  then show ?thesis
    unfolding wire_decision_def Let_def s_def f_def tname_def .
qed

lemma wires_ok_node:
  assumes "node_map nodes nid \<noteq> None"
  shows "wires_ok nodes (wire_node nid nx nodes)"
proof -
  from assms obtain i where i: "node_map nodes nid = Some i" by auto
  show ?thesis
    unfolding wire_node_def i option.case
    by (simp add: wires_ok_add [OF assms] wires_ok_decision [OF assms] wires_ok_Inr)
qed

lemma chained_extends: "extends nodes nodes' \<Longrightarrow> chained nodes g \<Longrightarrow> chained nodes' g"
  unfolding chained_def by (simp add: type_at_extends has_edge_extends)

lemma wire_node_edge:
  assumes "wire_node nid (Some nx) nodes = Inr n1"
    and "type_at nodes nid \<in> {Some ''collect_info'', Some ''api_call''}"
    and "nx \<noteq> []"
  shows "has_edge n1 nid nx"
proof -
  from assms(2) obtain i where i: "node_map nodes nid = Some i"
    by (auto simp: type_at_def)
  from assms(2) i have ty: "node_type (nodes ! i) = ''collect_info'' \<or> node_type (nodes ! i) = ''api_call''"
    by (auto simp: type_at_def)
  have nx: "next_or_confirm (Some nx) = nx" using assms(3) by (simp add: next_or_confirm_def)
  from ty show ?thesis
  proof
    assume c: "node_type (nodes ! i) = ''collect_info''"
    then have "add_transitions nid [mk_transition ''slot_filled'' nx] nodes = Inr n1"
      using assms(1) by (simp add: wire_node_def i nx)
    from add_transitions_edge [OF this, of "mk_transition ''slot_filled'' nx"]
    show ?thesis by (simp add: mk_transition_def)
  next
    assume c: "node_type (nodes ! i) = ''api_call''"
    then have "add_transitions nid [mk_transition ''api_response_received'' nx] nodes = Inr n1"
      using assms(1) by (simp add: wire_node_def i nx)
    from add_transitions_edge [OF this, of "mk_transition ''api_response_received'' nx"]
    show ?thesis by (simp add: mk_transition_def)
  qed
qed

lemma chain_group_ok:
  assumes "\<forall>nid \<in> set g. node_map nodes nid \<noteq> None" and "[] \<notin> set g"
  shows "\<exists>nodes'. chain_group g nodes = Inr nodes' \<and> extends nodes nodes' \<and> chained nodes' g"
  using assms
proof (induction g arbitrary: nodes)
  case Nil
  show ?case by (simp add: extends_refl chained_def)
next
  case (Cons nid rest)
  define nx where "nx = (case rest of [] \<Rightarrow> None | n # ns \<Rightarrow> Some n)"
  have "wires_ok nodes (wire_node nid nx nodes)"
    using Cons.prems(1) by (simp add: wires_ok_node)
  then obtain n1 where n1: "wire_node nid nx nodes = Inr n1" and e1: "extends nodes n1"
    by (auto simp: wires_ok_def)
  have "\<forall>k \<in> set rest. node_map n1 k \<noteq> None"
    using Cons.prems(1) by (simp add: extends_node_map [OF e1])
  moreover have "[] \<notin> set rest" using Cons.prems(2) by simp
  ultimately obtain n2 where n2: "chain_group rest n1 = Inr n2" and e2: "extends n1 n2"
      and c2: "chained n2 rest"
    using Cons.IH by blast
  have r: "chain_group (nid # rest) nodes = Inr n2"
    using n1 n2 by (simp add: nx_def)
  have e: "extends nodes n2" by (rule extends_trans [OF e1 e2])
  have "chained n2 (nid # rest)"
    unfolding chained_def
  proof (intro allI impI)
    fix i
    assume len: "Suc i < length (nid # rest)"
      and ty: "type_at n2 ((nid # rest) ! i) \<in> {Some ''collect_info'', Some ''api_call''}"
    show "has_edge n2 ((nid # rest) ! i) ((nid # rest) ! Suc i)"
    proof (cases i)
      case 0
      with len obtain y ys where rest: "rest = y # ys" by (cases rest) auto
      have y: "y \<noteq> []" using Cons.prems(2) rest by auto
      have t0: "type_at nodes nid \<in> {Some ''collect_info'', Some ''api_call''}"
        using ty 0 by (simp add: type_at_extends [OF e])
      have w0: "wire_node nid (Some y) nodes = Inr n1" using n1 by (simp add: nx_def rest)
      have "has_edge n1 nid y" by (rule wire_node_edge [OF w0 t0 y])
      then have "has_edge n2 nid y" by (rule has_edge_extends [OF e2])
      then show ?thesis by (simp add: 0 rest)
    next
      case (Suc j)
      then show ?thesis using c2 len ty by (auto simp: chained_def)
    qed
  qed
  with r e show ?case by blast
qed

lemma chain_groups_ok:
  assumes "\<forall>g \<in> set gs. (\<forall>nid \<in> set g. node_map nodes nid \<noteq> None) \<and> [] \<notin> set g"
  shows "\<exists>nodes'. chain_groups gs nodes = Inr nodes' \<and> extends nodes nodes'
           \<and> (\<forall>g \<in> set gs. chained nodes' g)"
  using assms
proof (induction gs arbitrary: nodes)
  case Nil
  show ?case by (simp add: extends_refl)
next
  case (Cons g gs)
  from Cons.prems obtain n1 where n1: "chain_group g nodes = Inr n1" and e1: "extends nodes n1"
      and c1: "chained n1 g"
    using chain_group_ok [of g nodes] by auto
  have "\<forall>h \<in> set gs. (\<forall>nid \<in> set h. node_map n1 nid \<noteq> None) \<and> [] \<notin> set h"
    using Cons.prems by (simp add: extends_node_map [OF e1])
  then obtain n2 where n2: "chain_groups gs n1 = Inr n2" and e2: "extends n1 n2"
      and c2: "\<forall>h \<in> set gs. chained n2 h"
    using Cons.IH by blast
  have "chain_groups (g # gs) nodes = Inr n2" using n1 n2 by simp
  moreover have "extends nodes n2" by (rule extends_trans [OF e1 e2])
  moreover have "\<forall>h \<in> set (g # gs). chained n2 h"
    using c2 chained_extends [OF e2 c1] by simp
  ultimately show ?case by blast
qed

lemma group_ids_present:
  "nid \<in> set (group_ids nodes t) \<Longrightarrow> node_map nodes nid \<noteq> None \<and> nid \<noteq> []"
  by (auto simp: group_ids_def Let_def split: if_splits)

lemma wire_transitions_ok:
  assumes "node_map nodes ''node_greet'' \<noteq> None"
  shows "\<exists>nodes'. wire_transitions nodes ts = Inr nodes' \<and> extends nodes nodes'
           \<and> has_edge nodes' ''node_greet'' (greet_target (map (group_ids nodes) ts))
           \<and> (\<forall>t \<in> set ts. chained nodes' (group_ids nodes t))"
proof -
  define gs where "gs = map (group_ids nodes) ts"
  define tr where "tr = mk_transition ''user_responds'' (greet_target gs)"
  from assms obtain i where i: "node_map nodes ''node_greet'' = Some i" by auto
  from add_transitions_extends [OF i, of "[tr]"]
  obtain n1 where n1: "add_transitions ''node_greet'' [tr] nodes = Inr n1" and e1: "extends nodes n1"
    by auto
  have g1: "has_edge n1 ''node_greet'' (greet_target gs)"
    using add_transitions_edge [OF n1, of tr] by (simp add: tr_def mk_transition_def)
  have "\<forall>g \<in> set gs. (\<forall>nid \<in> set g. node_map n1 nid \<noteq> None) \<and> [] \<notin> set g"
    using group_ids_present by (auto simp: gs_def extends_node_map [OF e1])
  then obtain n2 where n2: "chain_groups gs n1 = Inr n2" and e2: "extends n1 n2"
      and c2: "\<forall>g \<in> set gs. chained n2 g"
    using chain_groups_ok by blast
  obtain n3 where n3: "add_if_present ''node_confirm''
        [mk_transition ''nothing_else'' ''node_end'',
         mk_transition ''has_more_questions'' ''node_greet''] n2 = Inr n3" and e3: "extends n2 n3"
    using wires_ok_add_if_present unfolding wires_ok_def by blast
  obtain n4 where n4: "add_if_present ''node_fallback'' [mk_transition ''retry'' ''node_greet''] n3 = Inr n4"
      and e4: "extends n3 n4"
    using wires_ok_add_if_present unfolding wires_ok_def by blast
  obtain n5 where n5: "add_if_present ''node_transfer'' [mk_transition ''transferred'' ''node_end''] n4 = Inr n5"
      and e5: "extends n4 n5"
    using wires_ok_add_if_present unfolding wires_ok_def by blast
  have e25: "extends n2 n5" using e3 e4 e5 extends_trans by blast
  have e15: "extends n1 n5" using e2 e25 extends_trans by blast
  have r: "wire_transitions nodes ts = Inr n5"
    unfolding wire_transitions_def Let_def
    using n1 n2 n3 n4 n5 by (simp add: gs_def tr_def)
  have "extends nodes n5" using e1 e15 extends_trans by blast
  moreover have "has_edge n5 ''node_greet'' (greet_target gs)"
    by (rule has_edge_extends [OF e15 g1])
  moreover have "\<forall>t \<in> set ts. chained n5 (group_ids nodes t)"
    using c2 chained_extends [OF e25] by (simp add: gs_def)
  ultimately show ?thesis using r by (auto simp: gs_def)
qed

section \<open>The nodes of a synthesized flow\<close>

lemma flow_nodes_cases:
  assumes "n \<in> set (flow_nodes a)"
  shows "n = greet_node a \<or> n \<in> set closing_nodes
         \<or> (\<exists>t \<in> set (tasks a). n \<in> set (task_nodes (functions_needed a) t))"
  using assms by (auto simp: flow_nodes_def)

lemma task_nodes_cases:
  assumes "n \<in> set (task_nodes fns t)"
  shows "(\<exists>slot. n = collect_node slot) \<or> (requires_api t \<and> n \<in> set (api_nodes fns t))"
  using assms by (auto simp: task_nodes_def split: if_splits)

lemma greet_present: "node_map (flow_nodes a) ''node_greet'' \<noteq> None"
  by (simp add: node_map_None_iff flow_nodes_def greet_node_def mk_node_def)

section \<open>Merging keeps what the drafts say\<close>

lemma map_exn_Cons_Inr:
  "map_exn f (x # xs) = Inr ys \<longleftrightarrow> (\<exists>y zs. f x = Inr y \<and> map_exn f xs = Inr zs \<and> ys = y # zs)"
  by (auto simp: try_bind_Inr_iff)

lemma map_exn_Inr_iff:
  "map_exn f xs = Inr ys \<longleftrightarrow> list_all2 (\<lambda>x y. f x = Inr y) xs ys"
proof (induction xs arbitrary: ys)
  case Nil
  show ?case by auto
next
  case (Cons x xs)
  show ?case
    unfolding map_exn_Cons_Inr Cons.IH list_all2_Cons1 by blast
qed

lemma map_exn_total:
  assumes "\<And>x. x \<in> set xs \<Longrightarrow> \<exists>y. f x = Inr y"
  shows "\<exists>ys. map_exn f xs = Inr ys"
  using assms
proof (induction xs)
  case Nil
  show ?case by simp
next
  case (Cons x xs)
  then obtain y where y: "f x = Inr y" by auto
  from Cons obtain ys where "map_exn f xs = Inr ys" by auto
  with y show ?case by simp
qed

lemma enum_field_Inr: "map_of members s = Some v \<Longrightarrow> enum_field field members s = Inr v"
  by (simp add: enum_field_def)

lemma range_field_Inr: "lo \<le> x \<Longrightarrow> x \<le> hi \<Longrightarrow> range_field field lo hi x = Inr x"
  by (simp add: range_field_def)

lemma node_types_value: "map_of node_types s = Some ty \<Longrightarrow> node_type_value ty = s"
  by (auto simp: node_types_def split: if_splits)

lemma node_types_of_value: "map_of node_types (node_type_value ty) = Some ty"
  by (cases ty) (simp_all add: node_types_def)

lemma merge_node_view: "merge_node n = Inr m \<Longrightarrow> model_view m = dict_view n"
  by (auto simp: merge_node_def enum_field_def try_bind_Inr_iff model_view_def dict_view_def
      node_types_value comp_def split: option.splits)

lemma merge_nodes_view:
  assumes "map_exn merge_node ns = Inr ms"
  shows "map model_view ms = map dict_view ns"
proof -
  from assms have "list_all2 (\<lambda>n m. merge_node n = Inr m) ns ms" by (simp add: map_exn_Inr_iff)
  then show ?thesis
    by (induction rule: list_all2_induct) (simp_all add: merge_node_view)
qed

lemma flow_nodes_types:
  assumes "n \<in> set (flow_nodes a)"
  shows "\<exists>ty. map_of node_types (node_type n) = Some ty"
proof -
  from flow_nodes_cases [OF assms]
  consider "n = greet_node a" | "n \<in> set closing_nodes"
    | t where "n \<in> set (task_nodes (functions_needed a) t)" by blast
  then show ?thesis
  proof cases
    case 1
    then show ?thesis by (simp add: greet_node_def mk_node_def node_types_def)
  next
    case 2
    then show ?thesis by (auto simp: closing_nodes_def mk_node_def node_types_def)
  next
    case 3
    from task_nodes_cases [OF 3] show ?thesis
      by (auto simp: collect_node_def api_nodes_def Let_def mk_node_def node_types_def)
  qed
qed

lemma build_flow_total:
  "\<exists>fl. build_flow a = Inr fl \<and> fl_entry_node_id fl = ''node_greet''
        \<and> extends (flow_nodes a) (fl_nodes fl)"
proof -
  obtain nodes' where "wire_transitions (flow_nodes a) (tasks a) = Inr nodes'"
      and "extends (flow_nodes a) nodes'"
    using wire_transitions_ok [OF greet_present, of a "tasks a"] by blast
  then show ?thesis by (simp add: build_flow_def)
qed

lemma extends_set_types:
  assumes "extends nodes nodes'" and "n' \<in> set nodes'"
  shows "\<exists>n \<in> set nodes. unwired n' = unwired n"
proof -
  from assms(2) obtain i where i: "i < length nodes'" "nodes' ! i = n'"
    by (auto simp: in_set_conv_nth)
  have m: "map unwired nodes' = map unwired nodes" using assms(1) by (simp add: extends_def)
  have len: "length nodes' = length nodes" by (rule extends_length [OF assms(1)])
  have "map unwired nodes' ! i = map unwired nodes ! i" by (simp add: m)
  then have "unwired n' = unwired (nodes ! i)" using i len by simp
  moreover have "nodes ! i \<in> set nodes" using i len by simp
  ultimately show ?thesis by blast
qed

lemma merge_flow_total:
  assumes "build_flow a = Inr fl"
  shows "\<exists>cf. merge_flow w k fl = Inr cf"
proof -
  from build_flow_total [of a] assms have e: "extends (flow_nodes a) (fl_nodes fl)" by auto
  have "\<exists>m. merge_node n = Inr m" if "n \<in> set (fl_nodes fl)" for n
  proof -
    from extends_set_types [OF e that] obtain n0 where n0: "n0 \<in> set (flow_nodes a)"
        "unwired n = unwired n0" by blast
    from unwired_fields [OF n0(2)] have "node_type n = node_type n0" by simp
    with flow_nodes_types [OF n0(1)] obtain ty where "map_of node_types (node_type n) = Some ty"
      by auto
    then show ?thesis by (simp add: merge_node_def enum_field_Inr)
  qed
  then obtain ms where "map_exn merge_node (fl_nodes fl) = Inr ms"
    using map_exn_total [of "fl_nodes fl" merge_node] by blast
  then show ?thesis by (simp add: merge_flow_def)
qed

section \<open>The rule-based pipeline never fails\<close>

lemma language_value_code: "map_of language_codes (language_value l) = Some l"
  by (cases l) (simp_all add: language_codes_def)

lemma analysis_language [simp]: "language (analyze_with_rules p lang plat) = lang"
  by (simp add: analyze_with_rules_def Let_def split: prod.splits)

lemma analysis_voice_gender [simp]:
  "voice_gender (analyze_with_rules p lang plat) = detect_voice_gender (lower p)"
  by (simp add: analyze_with_rules_def Let_def split: prod.splits)

lemma analysis_functions_needed:
  "functions_needed (analyze_with_rules p lang plat) = detect_functions (tasks (analyze_with_rules p lang plat))"
  by (simp add: analyze_with_rules_def Let_def split: prod.splits)

lemma task_to_function_params_types:
  assumes "p \<in> set (task_to_function_params t)"
  shows "pr_type p = ''string'' \<or> pr_type p = ''integer''"
proof -
  have c: "(if A then ''string'' else if B then ''string'' else if C then ''integer'' else ''string'')
            \<in> {''string'', ''integer''}" for A B C
    by simp
  from assms obtain slot where
    "pr_type p = (if str_in ''date'' (lower slot) then ''string''
                  else if str_in ''number'' (lower slot) \<or> str_in ''amount'' (lower slot) then ''string''
                  else if str_in ''count'' (lower slot) \<or> str_in ''quantity'' (lower slot) then ''integer''
                  else ''string'')"
    unfolding task_to_function_params_def by auto
  with c show ?thesis by (metis insert_iff singletonD)
qed

lemma detect_functions_types:
  assumes "fn \<in> set (detect_functions ts)" and "p \<in> set (fr_input_params fn)"
  shows "pr_type p = ''string'' \<or> pr_type p = ''integer''"
proof -
  from assms(1) obtain t where "fr_input_params fn = task_to_function_params t"
    by (auto simp: detect_functions_def function_for_task_def Let_def)
  with assms(2) show ?thesis by (simp add: task_to_function_params_types)
qed

lemma analysis_valid: "valid_brief (analyze_with_rules p (language_value l) plat)"
proof -
  have g: "map_of voice_genders (detect_voice_gender s) \<noteq> None" for s
    by (simp add: detect_voice_gender_def voice_genders_def)
  have t: "map_of param_types (pr_type q) \<noteq> None"
    if "fn \<in> set (detect_functions ts)" "q \<in> set (fr_input_params fn)" for fn ts q
    using detect_functions_types [OF that] by (auto simp: param_types_def)
  show ?thesis
    unfolding valid_brief_def analysis_voice_gender analysis_language analysis_functions_needed
    using g t by (simp add: language_value_code list_all_iff del: not_None_eq)
qed

lemma merge_persona_total: "\<exists>pc. merge_persona (build_persona a) = Inr pc \<and> pc_name pc = agent_name_suggestion a"
  by (simp add: merge_persona_def build_persona_def range_field_def)

lemma merge_voice_total:
  assumes "valid_brief a"
  shows "\<exists>vc. merge_voice (build_voice a) = Inr vc"
proof -
  from assms obtain g l where "map_of voice_genders (voice_gender a) = Some g"
      "map_of language_codes (language a) = Some l"
    by (auto simp: valid_brief_def)
  then show ?thesis
    by (simp add: merge_voice_def build_voice_def enum_field_def range_field_def voice_providers_def)
qed

lemma merge_phrases_total:
  assumes "map_of language_codes lang = Some l"
  shows "\<exists>phs. map_exn merge_phrase (phrases lang texts) = Inr phs"
proof (rule map_exn_total)
  fix x assume "x \<in> set (phrases lang texts)"
  then have "ph_language x = lang" by (auto simp: phrases_def)
  then show "\<exists>y. merge_phrase x = Inr y" using assms by (simp add: merge_phrase_def enum_field_def)
qed

lemma intent_ok_phrases:
  "0 \<le> p \<Longrightarrow> p \<le> 10 \<Longrightarrow>
   intent_ok lang \<lparr>in_name = n, in_description = d, in_training_phrases = phrases lang texts, in_priority = p\<rparr>"
  unfolding intent_ok_def by auto

lemma intent_ok_no_phrases:
  "0 \<le> p \<Longrightarrow> p \<le> 10 \<Longrightarrow>
   intent_ok lang \<lparr>in_name = n, in_description = d, in_training_phrases = [], in_priority = p\<rparr>"
  using intent_ok_phrases [of p lang n d "[]"] by (simp add: phrases_def)

lemma build_intents_ok: "i \<in> set (build_intents a) \<Longrightarrow> intent_ok (language a) i"
  unfolding build_intents_def task_intent_def Let_def
  by (auto simp: intent_ok_phrases intent_ok_no_phrases)

lemma merge_intent_total:
  assumes "valid_brief a" and "i \<in> set (build_intents a)"
  shows "\<exists>d. merge_intent w (k, i) = Inr d"
proof -
  from assms(1) obtain l where l: "map_of language_codes (language a) = Some l"
    by (auto simp: valid_brief_def)
  from build_intents_ok [OF assms(2)] obtain texts where
    t: "in_training_phrases i = phrases (language a) texts" and
    p: "0 \<le> in_priority i" "in_priority i \<le> 10"
    by (auto simp: intent_ok_def)
  from merge_phrases_total [OF l, of texts] obtain phs where
    "map_exn merge_phrase (in_training_phrases i) = Inr phs" by (auto simp: t)
  then show ?thesis using p by (simp add: merge_intent_def range_field_def)
qed

lemma infer_http_method_cases:
  "infer_http_method n p \<in> {''GET'', ''POST'', ''PUT'', ''DELETE''}"
  by (simp add: infer_http_method_def Let_def)

lemma merge_endpoint_total:
  "\<exists>e. merge_endpoint (build_endpoint n (infer_http_method n p) ps) = Inr e"
proof -
  have "\<exists>m. map_of http_methods (infer_http_method n p) = Some m"
    using infer_http_method_cases [of n p] by (auto simp: http_methods_def)
  then show ?thesis
    by (auto simp: merge_endpoint_def build_endpoint_def Let_def enum_field_def range_field_def)
qed

lemma merge_function_total:
  assumes "list_all (\<lambda>p. map_of param_types (pr_type p) \<noteq> None) (fr_input_params fn)"
  shows "\<exists>d. merge_function w (k, build_function fn) = Inr d \<and> fdef_name d = fr_name fn"
proof -
  have "\<exists>y. merge_parameter x = Inr y" if "x \<in> set (map build_parameter (fr_input_params fn))" for x
  proof -
    from that obtain p where "p \<in> set (fr_input_params fn)" "x = build_parameter p" by auto
    with assms obtain ty where "map_of param_types (pr_type p) = Some ty" "fp_type x = Some (pr_type p)"
      by (auto simp: list_all_iff build_parameter_def)
    then show ?thesis by (simp add: merge_parameter_def enum_field_def)
  qed
  then obtain params where p: "map_exn merge_parameter (map build_parameter (fr_input_params fn)) = Inr params"
    using map_exn_total [of "map build_parameter (fr_input_params fn)" merge_parameter] by blast
  obtain e where e: "merge_endpoint (build_endpoint (fr_name fn)
      (infer_http_method (fr_name fn) (fr_purpose fn)) (map build_parameter (fr_input_params fn))) = Inr e"
    using merge_endpoint_total by blast
  show ?thesis
    by (simp add: merge_function_def build_function_def Let_def p e)
qed

lemma merge_function_name: "merge_function w (k, f) = Inr d \<Longrightarrow> fdef_name d = fd_name f"
  by (auto simp: merge_function_def try_bind_Inr_iff)

lemma http_methods_value: "map_of http_methods s = Some m \<Longrightarrow> http_method_value m = s"
  by (auto simp: http_methods_def split: if_splits)

lemma merge_endpoint_method: "merge_endpoint ep = Inr e \<Longrightarrow> http_method_value (ep_method e) = ed_method ep"
  by (auto simp: merge_endpoint_def try_bind_Inr_iff enum_field_def http_methods_value
      split: option.splits)

lemma merge_function_view: "merge_function w (k, f) = Inr d \<Longrightarrow> function_view d = dict_function_view f"
  by (cases "fd_api_endpoint f")
     (auto simp: merge_function_def try_bind_Inr_iff function_view_def dict_function_view_def
       merge_endpoint_method)

lemma merge_functions_views:
  assumes "map_exn (merge_function w) (enumerate k fs) = Inr ds"
  shows "map function_view ds = map dict_function_view fs"
proof -
  from assms have "list_all2 (\<lambda>x y. merge_function w x = Inr y) (enumerate k fs) ds"
    by (simp add: map_exn_Inr_iff)
  then have "list_all2 (\<lambda>x y. function_view y = dict_function_view (snd x)) (enumerate k fs) ds"
    by (rule list_all2_mono) (auto dest: merge_function_view)
  then have "map function_view ds = map (dict_function_view \<circ> snd) (enumerate k fs)"
    by (induction rule: list_all2_induct) simp_all
  then show ?thesis by (simp add: map_snd_enumerate flip: map_map)
qed

lemma merge_functions_names:
  assumes "map_exn (merge_function w) (enumerate k fs) = Inr ds"
  shows "map fdef_name ds = map fd_name fs"
proof -
  from assms have "list_all2 (\<lambda>x y. merge_function w x = Inr y) (enumerate k fs) ds"
    by (simp add: map_exn_Inr_iff)
  then have "list_all2 (\<lambda>x y. fdef_name y = fd_name (snd x)) (enumerate k fs) ds"
    by (rule list_all2_mono) (auto dest: merge_function_name)
  then have "map fdef_name ds = map (fd_name \<circ> snd) (enumerate k fs)"
    by (induction rule: list_all2_induct) simp_all
  then show ?thesis by (simp add: map_snd_enumerate flip: map_map)
qed

lemma merge_flow_view:
  assumes "merge_flow w k fl = Inr cf"
  shows "map model_view (cf_nodes cf) = map dict_view (fl_nodes fl)
         \<and> cf_entry_node_id cf = fl_entry_node_id fl"
proof -
  from assms obtain ms where ms: "map_exn merge_node (fl_nodes fl) = Inr ms" and "cf_nodes cf = ms"
      "cf_entry_node_id cf = fl_entry_node_id fl"
    by (auto simp: merge_flow_def try_bind_Inr_iff)
  with merge_nodes_view [OF ms] show ?thesis by simp
qed

lemma merge_config_total:
  assumes v: "valid_brief a" and fl: "build_flow a = Inr fl"
  shows "\<exists>cfg cf.
           merge_config llm w a
             \<lparr>ac_persona = build_persona a, ac_voice = build_voice a,
              ac_intents = build_intents a, ac_conversation_flow = fl\<rparr>
             (create_functions (functions_needed a)) plat = Inr cfg
         \<and> map fdef_name (cx_functions cfg) = map fr_name (functions_needed a)
         \<and> map function_view (cx_functions cfg)
               = map dict_function_view (create_functions (functions_needed a))
         \<and> cx_conversation_flow cfg = Some cf
         \<and> map model_view (cf_nodes cf) = map dict_view (fl_nodes fl)
         \<and> cf_entry_node_id cf = fl_entry_node_id fl
         \<and> created_at cfg = utcnow_isoformat w @ ''Z''
         \<and> pc_name (cx_persona cfg) = agent_name_suggestion a
         \<and> length (cx_functions cfg) = length (functions_needed a)
         \<and> length (cx_intents cfg) = length (tasks a) + 3"
proof -
  define fns where "fns = create_functions (functions_needed a)"
  define n_int where "n_int = length (build_intents a)"
  obtain pc where pc: "merge_persona (build_persona a) = Inr pc" "pc_name pc = agent_name_suggestion a"
    using merge_persona_total by blast
  obtain vc where vc: "merge_voice (build_voice a) = Inr vc"
    using merge_voice_total [OF v] by blast
  have "\<exists>y. merge_intent w x = Inr y" if "x \<in> set (enumerate 0 (build_intents a))" for x
  proof -
    obtain k i where x: "x = (k, i)" by (cases x)
    with that have "i \<in> set (build_intents a)" by (auto simp: in_set_enumerate_eq)
    from merge_intent_total [OF v this] show ?thesis by (simp add: x)
  qed
  then obtain ints where ints: "map_exn (merge_intent w) (enumerate 0 (build_intents a)) = Inr ints"
    using map_exn_total [of "enumerate 0 (build_intents a)" "merge_intent w"] by blast
  have "\<exists>y. merge_function w x = Inr y" if "x \<in> set (enumerate n_int fns)" for x
  proof -
    obtain k f where x: "x = (k, f)" by (cases x)
    with that have "f \<in> set fns" by (auto simp: in_set_enumerate_eq)
    then obtain fn where fn: "fn \<in> set (functions_needed a)" "f = build_function fn"
      by (auto simp: fns_def create_functions_def)
    then have "list_all (\<lambda>p. map_of param_types (pr_type p) \<noteq> None) (fr_input_params fn)"
      using v by (auto simp: valid_brief_def list_all_iff)
    from merge_function_total [OF this] show ?thesis unfolding x fn(2) by blast
  qed
  then obtain fds where fds: "map_exn (merge_function w) (enumerate n_int fns) = Inr fds"
    using map_exn_total [of "enumerate n_int fns" "merge_function w"] by blast
  obtain cf where cf: "merge_flow w (n_int + length fns) fl = Inr cf"
    using merge_flow_total [OF fl] by blast
  have names: "map fdef_name fds = map fr_name (functions_needed a)"
    using merge_functions_names [OF fds]
    by (simp add: fns_def create_functions_def build_function_def Let_def comp_def)
  have li: "length ints = length (build_intents a)"
    using ints by (auto simp: map_exn_Inr_iff dest: list_all2_lengthD)
  have lb: "length (build_intents a) = length (tasks a) + 3"
    by (simp add: build_intents_def)
  have lf: "length fds = length (functions_needed a)"
    using names by (metis length_map)
  show ?thesis
    unfolding merge_config_def Let_def
    using pc vc ints fds cf names merge_flow_view [OF cf] li lb lf merge_functions_views [OF fds]
    by (simp add: fns_def n_int_def)
qed

lemma process_request_rule:
  "\<exists>fl cfg cf.
      build_flow (brief_of rq) = Inr fl
    \<and> process_request w rq =
        \<lparr>success = True,
         message = ''Successfully created CX agent '' @ [CHR 0x27] @ agent_name_suggestion (brief_of rq)
                   @ [CHR 0x27] @ '' with '' @ str_of_nat (length (functions_needed (brief_of rq)))
                   @ '' functions and '' @ str_of_nat (length (tasks (brief_of rq)) + 3) @ '' intents.'',
         agent_config = Some cfg,
         openai_tools_schema = Some (to_openai_tools (create_functions (functions_needed (brief_of rq)))),
         raw_analysis = Some (brief_of rq)\<rparr>
    \<and> map fdef_name (cx_functions cfg) = map fr_name (functions_needed (brief_of rq))
    \<and> map function_view (cx_functions cfg)
          = map dict_function_view (create_functions (functions_needed (brief_of rq)))
    \<and> cx_conversation_flow cfg = Some cf
    \<and> map model_view (cf_nodes cf) = map dict_view (fl_nodes fl)
    \<and> cf_entry_node_id cf = fl_entry_node_id fl
    \<and> created_at cfg = utcnow_isoformat w @ ''Z''"
proof -
  define a where "a = brief_of rq"
  have v: "valid_brief a" unfolding a_def brief_of_def by (rule analysis_valid)
  obtain fl where fl: "build_flow a = Inr fl" using build_flow_total by blast
  from merge_config_total [OF v fl, of False w "rq_platform rq"]
  obtain cfg cf where m: "merge_config False w a
             \<lparr>ac_persona = build_persona a, ac_voice = build_voice a,
              ac_intents = build_intents a, ac_conversation_flow = fl\<rparr>
             (create_functions (functions_needed a)) (rq_platform rq) = Inr cfg"
    and c: "map fdef_name (cx_functions cfg) = map fr_name (functions_needed a)"
      "map function_view (cx_functions cfg) = map dict_function_view (create_functions (functions_needed a))"
      "cx_conversation_flow cfg = Some cf"
      "map model_view (cf_nodes cf) = map dict_view (fl_nodes fl)"
      "cf_entry_node_id cf = fl_entry_node_id fl"
      "created_at cfg = utcnow_isoformat w @ ''Z''"
      "pc_name (cx_persona cfg) = agent_name_suggestion a"
      "length (cx_functions cfg) = length (functions_needed a)"
      "length (cx_intents cfg) = length (tasks a) + 3"
    by blast
  have p: "pipeline rule_stages w rq = Inr (cfg, to_openai_tools (create_functions (functions_needed a)), a)"
    unfolding pipeline_def rule_stages_def
    using fl m by (simp add: create_agent_config_def flip: a_def brief_of_def)
  have "process_request w rq =
        \<lparr>success = True,
         message = ''Successfully created CX agent '' @ [CHR 0x27] @ agent_name_suggestion a
                   @ [CHR 0x27] @ '' with '' @ str_of_nat (length (functions_needed a))
                   @ '' functions and '' @ str_of_nat (length (tasks a) + 3) @ '' intents.'',
         agent_config = Some cfg,
         openai_tools_schema = Some (to_openai_tools (create_functions (functions_needed a))),
         raw_analysis = Some a\<rparr>"
    unfolding process_request_def process_request_with_def p
    by (simp add: c)
  with fl c show ?thesis unfolding a_def by blast
qed

section \<open>The example request, evaluated\<close>

lemma example_brief_eval: "brief_of example_request = example_brief"
  by code_simp

lemma example_flow_eval:
  "map_sum exn_text (\<lambda>fl. (fl_entry_node_id fl, map dict_view (fl_nodes fl))) (build_flow example_brief)
     = Inr (''node_greet'', example_views)"
  by code_simp

lemma example_methods_eval:
  "map (\<lambda>f. (fd_name f, map_option ed_method (fd_api_endpoint f))) (create_functions example_functions)
     = [(''get_appointment_slots'', Some ''GET''), (''check_availability'', Some ''GET'')]"
  by code_simp

section \<open>API nodes and the function catalogue\<close>

lemma matching_fn_resolves:
  assumes "fns \<noteq> []"
  shows "\<exists>fn \<in> set fns. matching_fn fns tn d = Some (fr_name fn)"
proof (cases "find (\<lambda>fn. str_in tn (fr_name fn) \<or> str_in (fr_name fn) d) fns")
  case None
  with assms show ?thesis by (cases fns) (simp_all add: matching_fn_def)
next
  case (Some fn)
  then have "fn \<in> set fns" by (auto simp: find_Some_iff)
  with Some show ?thesis by (auto simp: matching_fn_def)
qed

lemma api_call_node_origin:
  assumes "n \<in> set (flow_nodes a)" and "node_type n = ''api_call''"
  shows "\<exists>t \<in> set (tasks a). requires_api t \<and>
           function_call n = matching_fn (functions_needed a) (snake_name (task_name t)) (api_description t)"
proof -
  from flow_nodes_cases [OF assms(1)]
  consider "n = greet_node a" | "n \<in> set closing_nodes"
    | t where "t \<in> set (tasks a)" "n \<in> set (task_nodes (functions_needed a) t)" by blast
  then show ?thesis
  proof cases
    case 1
    then show ?thesis using assms(2) by (simp add: greet_node_def mk_node_def)
  next
    case 2
    then show ?thesis using assms(2) by (auto simp: closing_nodes_def mk_node_def)
  next
    case 3
    from task_nodes_cases [OF 3(2)] assms(2)
    have "requires_api t \<and>
          function_call n = matching_fn (functions_needed a) (snake_name (task_name t)) (api_description t)"
      by (auto simp: collect_node_def api_nodes_def Let_def mk_node_def)
    with 3(1) show ?thesis by blast
  qed
qed

lemma detect_functions_nonempty:
  "t \<in> set ts \<Longrightarrow> requires_api t \<Longrightarrow> detect_functions ts \<noteq> []"
  by (auto simp: detect_functions_def filter_empty_conv)

lemma flow_api_nodes_resolve:
  assumes fn: "functions_needed a = detect_functions (tasks a)"
    and fl: "build_flow a = Inr fl"
    and n: "n \<in> set (fl_nodes fl)" "node_type n = ''api_call''"
  shows "\<exists>f \<in> set (functions_needed a). function_call n = Some (fr_name f)"
proof -
  from build_flow_total [of a] fl have e: "extends (flow_nodes a) (fl_nodes fl)" by auto
  from extends_set_types [OF e n(1)] obtain n0 where n0: "n0 \<in> set (flow_nodes a)"
      "unwired n = unwired n0" by blast
  from unwired_fields [OF n0(2)] have same: "node_type n0 = node_type n"
      "function_call n0 = function_call n" by simp_all
  from api_call_node_origin [OF n0(1)] same n(2) obtain t where t: "t \<in> set (tasks a)" "requires_api t"
      "function_call n = matching_fn (functions_needed a) (snake_name (task_name t)) (api_description t)"
    by auto
  have "functions_needed a \<noteq> []" unfolding fn by (rule detect_functions_nonempty [OF t(1,2)])
  from matching_fn_resolves [OF this] t(3) show ?thesis by simp
qed

section \<open>The world only reaches the generated fields\<close>

lemma agree_refl: "agree b r r"
  by (simp add: agree_def)

lemma agree_Inr: "b x = b y \<Longrightarrow> agree b (Inr x) (Inr y)"
  by (simp add: agree_def)

lemma agree_cases:
  assumes "agree b r1 r2"
  obtains e where "r1 = Inl e" "r2 = Inl e" | x y where "r1 = Inr x" "r2 = Inr y" "b x = b y"
  using assms by (cases r1; cases r2) (auto simp: agree_def)

lemma agree_bind:
  assumes "agree b m1 m2" and "\<And>x y. m1 = Inr x \<Longrightarrow> m2 = Inr y \<Longrightarrow> b x = b y \<Longrightarrow> agree c (f1 x) (f2 y)"
  shows "agree c (try_bind m1 f1) (try_bind m2 f2)"
  using assms(1)
proof (cases rule: agree_cases)
  case (1 e)
  then show ?thesis by (simp add: agree_def)
next
  case (2 x y)
  with assms(2) show ?thesis by simp
qed

lemma agree_bind_same:
  assumes "\<And>x. m = Inr x \<Longrightarrow> agree c (f1 x) (f2 x)"
  shows "agree c (try_bind m f1) (try_bind m f2)"
  using assms by (cases m) (simp_all add: agree_def)

lemma agree_map_exn:
  assumes "\<And>x. x \<in> set xs \<Longrightarrow> agree b (f1 x) (f2 x)"
  shows "agree (map b) (map_exn f1 xs) (map_exn f2 xs)"
  using assms
proof (induction xs)
  case Nil
  show ?case by (simp add: agree_def)
next
  case (Cons x xs)
  have h: "agree b (f1 x) (f2 x)" using Cons.prems by simp
  have t: "agree (map b) (map_exn f1 xs) (map_exn f2 xs)" using Cons by simp
  show ?case
    unfolding map_exn.simps
  proof (rule agree_bind [OF h])
    fix y1 y2 assume y: "b y1 = b y2"
    show "agree (map b) (try_bind (map_exn f1 xs) (\<lambda>ys. Inr (y1 # ys)))
            (try_bind (map_exn f2 xs) (\<lambda>ys. Inr (y2 # ys)))"
    proof (rule agree_bind [OF t])
      fix z1 z2 assume "map b z1 = map b z2"
      with y show "agree (map b) (Inr (y1 # z1)) (Inr (y2 # z2))" by (simp add: agree_def)
    qed
  qed
qed

lemma agree_intent: "agree blank_intent (merge_intent w1 ki) (merge_intent w2 ki)"
proof -
  obtain k i where ki: "ki = (k, i)" by (cases ki)
  show ?thesis
    unfolding ki merge_intent_def prod.case
  proof (rule agree_bind [OF agree_refl [of id]])
    fix phs phs' :: "TrainingPhrase list"
    assume "id phs = id phs'"
    then have p: "phs' = phs" by simp
    show "agree blank_intent
           (try_bind (range_field ''priority'' 0 10 (in_priority i))
             (\<lambda>prio. Inr \<lparr>intent_id = ''intent_'' @ take 8 (uuid4_hex w1 k), id_name = in_name i,
                  id_description = in_description i, id_training_phrases = phs, id_priority = prio\<rparr>))
           (try_bind (range_field ''priority'' 0 10 (in_priority i))
             (\<lambda>prio. Inr \<lparr>intent_id = ''intent_'' @ take 8 (uuid4_hex w2 k), id_name = in_name i,
                  id_description = in_description i, id_training_phrases = phs', id_priority = prio\<rparr>))"
      unfolding p
      by (rule agree_bind [OF agree_refl [of id]]) (simp add: agree_def blank_intent_def)
  qed
qed

lemma agree_function: "agree blank_function (merge_function w1 kf) (merge_function w2 kf)"
proof -
  obtain k f where kf: "kf = (k, f)" by (cases kf)
  show ?thesis
    unfolding kf merge_function_def prod.case
    apply (rule agree_bind [OF agree_refl [of id]])
    apply (rule agree_bind [OF agree_refl [of id]])
    apply (simp add: agree_def blank_function_def)
    done
qed

lemma agree_flow: "agree blank_flow (merge_flow w1 k fl) (merge_flow w2 k fl)"
  unfolding merge_flow_def
  by (rule agree_bind [OF agree_refl [of id]]) (simp add: agree_def blank_flow_def)

lemma agree_config:
  "agree blank_generated (merge_config llm w1 a ac fns plat) (merge_config llm w2 a ac fns plat)"
  unfolding merge_config_def Let_def
proof (rule agree_bind [OF agree_refl [of id]], rule agree_bind [OF agree_refl [of id]])
  fix persona persona' :: PersonaConfig and voice voice' :: VoiceConfig
  assume "id persona = id persona'" "id voice = id voice'"
  then have pv: "persona' = persona" "voice' = voice" by simp_all
  have i: "agree (map blank_intent) (map_exn (merge_intent w1) (enumerate 0 (ac_intents ac)))
             (map_exn (merge_intent w2) (enumerate 0 (ac_intents ac)))"
    by (rule agree_map_exn) (rule agree_intent)
  have f: "agree (map blank_function)
             (map_exn (merge_function w1) (enumerate (length (ac_intents ac)) fns))
             (map_exn (merge_function w2) (enumerate (length (ac_intents ac)) fns))"
    by (rule agree_map_exn) (rule agree_function)
  show "agree blank_generated
     (try_bind (map_exn (merge_intent w1) (enumerate 0 (ac_intents ac))) (\<lambda>intents.
      try_bind (map_exn (merge_function w1) (enumerate (length (ac_intents ac)) fns)) (\<lambda>func_defs.
      try_bind (merge_flow w1 (length (ac_intents ac) + length fns) (ac_conversation_flow ac)) (\<lambda>flow.
        Inr \<lparr>agent_id = ''agent_'' @ take 12 (uuid4_hex w1 (length (ac_intents ac) + length fns + 1)),
             cx_version = ''1.0.0'', cx_status = DRAFT,
             created_at = utcnow_isoformat w1 @ ''Z'',
             cx_persona = persona, cx_voice = voice, cx_intents = intents,
             cx_functions = func_defs, cx_conversation_flow = Some flow,
             cx_deployment = deployment_for plat,
             cx_metadata = [(''source_prompt'', domain a),
                            (''generation_mode'', if llm then ''llm'' else ''rule_based'')]\<rparr>))))
     (try_bind (map_exn (merge_intent w2) (enumerate 0 (ac_intents ac))) (\<lambda>intents.
      try_bind (map_exn (merge_function w2) (enumerate (length (ac_intents ac)) fns)) (\<lambda>func_defs.
      try_bind (merge_flow w2 (length (ac_intents ac) + length fns) (ac_conversation_flow ac)) (\<lambda>flow.
        Inr \<lparr>agent_id = ''agent_'' @ take 12 (uuid4_hex w2 (length (ac_intents ac) + length fns + 1)),
             cx_version = ''1.0.0'', cx_status = DRAFT,
             created_at = utcnow_isoformat w2 @ ''Z'',
             cx_persona = persona', cx_voice = voice', cx_intents = intents,
             cx_functions = func_defs, cx_conversation_flow = Some flow,
             cx_deployment = deployment_for plat,
             cx_metadata = [(''source_prompt'', domain a),
                            (''generation_mode'', if llm then ''llm'' else ''rule_based'')]\<rparr>))))"
    unfolding pv
    apply (rule agree_bind [OF i])
    apply (rule agree_bind [OF f])
    apply (rule agree_bind [OF agree_flow])
    apply (simp add: agree_def blank_generated_def)
    done
qed

lemma blank_generated_message:
  assumes "blank_generated c1 = blank_generated c2"
  shows "cx_persona c1 = cx_persona c2 \<and> length (cx_functions c1) = length (cx_functions c2)
         \<and> length (cx_intents c1) = length (cx_intents c2)"
proof -
  have p: "cx_persona (blank_generated c) = cx_persona c"
       "length (cx_functions (blank_generated c)) = length (cx_functions c)"
       "length (cx_intents (blank_generated c)) = length (cx_intents c)" for c
    by (simp_all add: blank_generated_def)
  from assms p [of c1] p [of c2] show ?thesis by simp
qed

lemma process_request_with_agree:
  "blank_response (process_request_with st w1 rq) = blank_response (process_request_with st w2 rq)"
proof -
  have "agree (\<lambda>(cfg, tools, a). (blank_generated cfg, tools, a)) (pipeline st w1 rq) (pipeline st w2 rq)"
    unfolding pipeline_def
    apply (rule agree_bind_same)
    apply (rule agree_bind_same)
    apply (rule agree_bind_same)
    apply (rule agree_bind [OF agree_config])
    apply (simp add: agree_def)
    done
  then show ?thesis
  proof (cases rule: agree_cases)
    case (1 e)
    then show ?thesis by (simp add: process_request_with_def)
  next
    case (2 x y)
    obtain c1 t1 a1 where x: "x = (c1, t1, a1)" by (cases x)
    obtain c2 t2 a2 where y: "y = (c2, t2, a2)" by (cases y)
    from 2(3) have eq: "blank_generated c1 = blank_generated c2" "t1 = t2" "a1 = a2"
      by (simp_all add: x y)
    from blank_generated_message [OF eq(1)] eq show ?thesis
      by (simp add: process_request_with_def 2 x y blank_response_def)
  qed
qed

section \<open>The configuration for the example request\<close>

lemma example_output:
  "\<exists>cfg cf.
      agent_config (process_request w example_request) = Some cfg
    \<and> raw_analysis (process_request w example_request) = Some example_brief
    \<and> success (process_request w example_request)
    \<and> map function_view (cx_functions cfg)
          = [(''get_appointment_slots'', Some ''GET''), (''check_availability'', Some ''GET'')]
    \<and> cx_conversation_flow cfg = Some cf
    \<and> cf_entry_node_id cf = ''node_greet''
    \<and> map model_view (cf_nodes cf) = example_views"
proof -
  from process_request_rule [of example_request w] obtain fl cfg cf where
      fl: "build_flow example_brief = Inr fl"
    and r: "agent_config (process_request w example_request) = Some cfg"
      "raw_analysis (process_request w example_request) = Some example_brief"
      "success (process_request w example_request)"
    and fv: "map function_view (cx_functions cfg)
               = map dict_function_view (create_functions (functions_needed example_brief))"
    and cf: "cx_conversation_flow cfg = Some cf"
      "map model_view (cf_nodes cf) = map dict_view (fl_nodes fl)"
      "cf_entry_node_id cf = fl_entry_node_id fl"
    unfolding example_brief_eval by force
  have f: "functions_needed example_brief = example_functions" by (simp add: example_brief_def)
  have "map dict_function_view (create_functions example_functions)
          = [(''get_appointment_slots'', Some ''GET''), (''check_availability'', Some ''GET'')]"
  proof -
    have "dict_function_view = (\<lambda>f. (fd_name f, map_option ed_method (fd_api_endpoint f)))"
      by (rule ext) (simp add: dict_function_view_def)
    then show ?thesis using example_methods_eval by simp
  qed
  with fv f have fv': "map function_view (cx_functions cfg)
          = [(''get_appointment_slots'', Some ''GET''), (''check_availability'', Some ''GET'')]" by simp
  from example_flow_eval fl have e: "fl_entry_node_id fl = ''node_greet''"
      "map dict_view (fl_nodes fl) = example_views" by simp_all
  have c1: "cf_entry_node_id cf = ''node_greet''" using cf(3) e(1) by simp
  have c2: "map model_view (cf_nodes cf) = example_views" using cf(2) e(2) by simp
  show ?thesis
  proof (intro exI conjI)
    show "agent_config (process_request w example_request) = Some cfg" by (rule r(1))
    show "raw_analysis (process_request w example_request) = Some example_brief" by (rule r(2))
    show "success (process_request w example_request)" by (rule r(3))
    show "map function_view (cx_functions cfg)
          = [(''get_appointment_slots'', Some ''GET''), (''check_availability'', Some ''GET'')]"
      by (rule fv')
    show "cx_conversation_flow cfg = Some cf" by (rule cf(1))
    show "cf_entry_node_id cf = ''node_greet''" by (rule c1)
    show "map model_view (cf_nodes cf) = example_views" by (rule c2)
  qed
qed

lemma transition_targets:
  "map ft_target_node_id trs = map snd (map (\<lambda>t. (ft_condition t, ft_target_node_id t)) trs)"
  by (simp add: comp_def)

lemma model_view_parts:
  assumes "model_view n = (i, ty, slot, fn, trs)"
  shows "fnode_id n = i" and "node_type_value (fnode_type n) = ty" and "fnode_collect_slot n = slot"
    and "fnode_function_call n = fn" and "map ft_target_node_id (fnode_transitions n) = map snd trs"
    and "fnode_transitions n = [] \<longleftrightarrow> trs = []"
proof -
  from assms have v: "fnode_id n = i" "node_type_value (fnode_type n) = ty" "fnode_collect_slot n = slot"
      "fnode_function_call n = fn"
      "map (\<lambda>t. (ft_condition t, ft_target_node_id t)) (fnode_transitions n) = trs"
    by (simp_all add: model_view_def)
  show "fnode_id n = i" "node_type_value (fnode_type n) = ty" "fnode_collect_slot n = slot"
      "fnode_function_call n = fn" by (rule v)+
  show "map ft_target_node_id (fnode_transitions n) = map snd trs"
    unfolding transition_targets v(5) ..
  show "fnode_transitions n = [] \<longleftrightarrow> trs = []"
    using v(5) by auto
qed

lemma node_type_of_value:
  "node_type_value t = ''greeting'' \<Longrightarrow> t = GREETING"
  "node_type_value t = ''collect_info'' \<Longrightarrow> t = COLLECT_INFO"
  "node_type_value t = ''api_call'' \<Longrightarrow> t = API_CALL"
  by (cases t; simp)+

section \<open>Reading the clock\<close>

lemma created_at_of_world:
  "map_option created_at (agent_config (process_request w rq)) = Some (utcnow_isoformat w @ ''Z'')"
proof -
  from process_request_rule [of rq w] obtain cfg where
    "agent_config (process_request w rq) = Some cfg" "created_at cfg = utcnow_isoformat w @ ''Z''"
    by force
  then show ?thesis by simp
qed

section \<open>A draft that fails validation\<close>


section \<open>Task detection and the primary task\<close>

lemma first_index_None_iff: "first_index P xs = None \<longleftrightarrow> (\<forall>x \<in> set xs. \<not> P x)"
  by (induction xs) (auto split: option.splits)

lemma first_index_SomeD: "first_index P xs = Some i \<Longrightarrow> i < length xs \<and> P (xs ! i)"
proof (induction xs arbitrary: i)
  case Nil
  then show ?case by simp
next
  case (Cons x xs)
  then show ?case by (cases "P x") (auto split: option.splits)
qed

lemma primary_task_None_iff:
  "primary_task ts = None \<longleftrightarrow> (\<forall>t \<in> set ts. \<not> requires_api t \<and> task_name t = ''Greeting'')"
proof (cases "first_index requires_api ts")
  case None
  then have "\<forall>t \<in> set ts. \<not> requires_api t" by (simp add: first_index_None_iff)
  moreover have "primary_task ts = first_index (\<lambda>t. task_name t \<noteq> ''Greeting'') ts"
    by (simp add: primary_task_def None)
  ultimately show ?thesis by (simp add: first_index_None_iff)
next
  case (Some i)
  from first_index_SomeD [OF Some] have "ts ! i \<in> set ts" "requires_api (ts ! i)" by simp_all
  then have r: "\<not> (\<forall>t \<in> set ts. \<not> requires_api t \<and> task_name t = ''Greeting'')" by blast
  have p: "primary_task ts \<noteq> None" by (simp add: primary_task_def Some)
  from r p show ?thesis by blast
qed

text \<open>
  Merging the extracted slots into a task list without a primary task appends the task
  Collect Customer Information with those slots.
\<close>

lemma merge_without_primary_task:
  assumes "list_all (\<lambda>t. \<not> requires_api t \<and> task_name t = ''Greeting'') ts"
  shows "merge_user_slots_into_tasks ts user_slots =
           ts @ [\<lparr>task_name = ''Collect Customer Information'',
                  description = ''Collect customer details for the interaction'',
                  data_to_collect = user_slots,
                  requires_api = True,
                  api_description = ''Store or process collected customer information'',
                  task_keywords = None\<rparr>]"
proof -
  from assms have "primary_task ts = None"
    unfolding primary_task_None_iff by (simp add: list_all_iff)
  then show ?thesis
    by (simp add: merge_user_slots_into_tasks_def collect_customer_information_def)
qed

text \<open>
  The analysis of a text that mentions an email address and a phone number: detection
  finds the tasks Collect Email and Collect Phone Number beside the greeting, and the
  slots are merged into the first of them.
\<close>

lemma email_and_phone_analysis:
  "map (\<lambda>t. (task_name t, data_to_collect t, requires_api t))
     (tasks (analyze_with_rules ''collect email and phone number'' ''en-US'' ''voiceowl''))
   = [(''Greeting'', [], False),
      (''Collect Email'', [''email'', ''phone_number''], False),
      (''Collect Phone Number'', [''phone_number''], False)]"
  by code_simp

lemma unique_tasks_keeps_names:
  "t \<in> set ts \<Longrightarrow> task_name t \<notin> set seen \<Longrightarrow>
     \<exists>t' \<in> set (unique_tasks seen ts). task_name t' = task_name t"
proof (induction ts arbitrary: seen)
  case Nil
  then show ?case by simp
next
  case (Cons x xs)
  show ?case
  proof (cases "task_name x \<in> set seen")
    case True
    with Cons.prems have "t \<in> set xs" by auto
    from Cons.IH [OF this Cons.prems(2)] True show ?thesis by simp
  next
    case False
    show ?thesis
    proof (cases "task_name x = task_name t")
      case True
      with False show ?thesis by auto
    next
      case ne: False
      with Cons.prems have "t \<in> set xs" "task_name t \<notin> set (task_name x # seen)" by auto
      from Cons.IH [OF this] False show ?thesis by simp
    qed
  qed
qed

lemma unique_tasks_subset: "set (unique_tasks seen ts) \<subseteq> set ts"
  by (induction ts arbitrary: seen) auto

lemma pattern_names: "map (\<lambda>(key, kws, t). task_name t) task_patterns = take 10 known_task_names"
  by (simp add: task_patterns_def mk_task_def known_task_names_def)

lemma pattern_task_name:
  assumes "(key, kws, t) \<in> set task_patterns"
  shows "task_name t \<in> set known_task_names"
proof -
  from assms have "task_name t \<in> set (map (\<lambda>(key, kws, t). task_name t) task_patterns)" by force
  then have "task_name t \<in> set (take 10 known_task_names)" by (simp only: pattern_names)
  then show ?thesis by (rule in_set_takeD)
qed

lemma default_task_name:
  "t \<in> set (domain_default_tasks d) \<Longrightarrow> task_name t \<in> set known_task_names"
  by (auto simp: domain_default_tasks_def mk_task_def known_task_names_def split: if_splits)

lemma domain_default_tasks_nonempty: "domain_default_tasks d \<noteq> []"
  by (simp add: domain_default_tasks_def)

lemma known_not_greeting: "n \<in> set known_task_names \<Longrightarrow> n \<noteq> ''Greeting''"
  by (auto simp: known_task_names_def)

lemma known_not_synthesized: "n \<in> set known_task_names \<Longrightarrow> n \<noteq> ''Collect Customer Information''"
  by (auto simp: known_task_names_def)

lemma detect_tasks_names:
  "t \<in> set (detect_tasks text d) \<Longrightarrow> task_name t = ''Greeting'' \<or> task_name t \<in> set known_task_names"
proof -
  assume "t \<in> set (detect_tasks text d)"
  then have "t = greet_pattern
      \<or> t \<in> set (map (\<lambda>(key, kws, t). t) (filter (\<lambda>(key, kws, t). any_in kws text) task_patterns))
      \<or> t \<in> set (domain_default_tasks d)"
    using unique_tasks_subset unfolding detect_tasks_def Let_def
    by (fastforce split: if_splits)
  then show ?thesis
  proof (elim disjE)
    assume "t = greet_pattern"
    then show ?thesis by (simp add: greet_pattern_def)
  next
    assume "t \<in> set (map (\<lambda>(key, kws, t). t) (filter (\<lambda>(key, kws, t). any_in kws text) task_patterns))"
    then obtain key kws where "(key, kws, t) \<in> set task_patterns" by auto
    then show ?thesis by (simp add: pattern_task_name)
  next
    assume "t \<in> set (domain_default_tasks d)"
    then show ?thesis by (simp add: default_task_name)
  qed
qed

lemma detect_tasks_beyond_greeting:
  "\<exists>t \<in> set (detect_tasks text d). task_name t \<noteq> ''Greeting''"
proof -
  define matched where
    "matched = map (\<lambda>(key, kws, t). t) (filter (\<lambda>(key, kws, t). any_in kws text) task_patterns)"
  define wd where "wd = (if length (greet_pattern # matched) \<le> 1
      then (greet_pattern # matched) @ domain_default_tasks d else greet_pattern # matched)"
  have dt: "detect_tasks text d = unique_tasks [] wd"
    by (simp add: detect_tasks_def Let_def wd_def matched_def)
  have "\<exists>t \<in> set wd. task_name t \<in> set known_task_names"
  proof (cases matched)
    case Nil
    obtain t where "t \<in> set (domain_default_tasks d)"
      using domain_default_tasks_nonempty [of d] by (cases "domain_default_tasks d") auto
    then show ?thesis using Nil default_task_name [of t d] by (auto simp: wd_def)
  next
    case (Cons m ms)
    then have "m \<in> set matched" by simp
    then obtain key kws where "(key, kws, m) \<in> set task_patterns" by (auto simp: matched_def)
    then have "task_name m \<in> set known_task_names" by (rule pattern_task_name)
    then show ?thesis using Cons by (auto simp: wd_def)
  qed
  then obtain t where t: "t \<in> set wd" "task_name t \<in> set known_task_names" by blast
  from unique_tasks_keeps_names [OF t(1), of "[]"] obtain t' where
    "t' \<in> set (unique_tasks [] wd)" "task_name t' = task_name t" by auto
  with t(2) known_not_greeting show ?thesis unfolding dt by metis
qed

lemma detect_tasks_has_primary: "primary_task (detect_tasks text d) \<noteq> None"
  using detect_tasks_beyond_greeting [of "text" d] unfolding primary_task_None_iff by blast

lemma merge_keeps_names:
  assumes "primary_task ts \<noteq> None"
  shows "map task_name (merge_user_slots_into_tasks ts user_slots) = map task_name ts"
proof -
  from assms obtain i where i: "primary_task ts = Some i" by auto
  have "map task_name (ts[i := (ts ! i)\<lparr>data_to_collect := slots\<rparr>]) = map task_name ts" for slots
  proof (cases "i < length ts")
    case True
    then have "(map task_name ts)[i := task_name (ts ! i)] = map task_name ts"
      by (metis list_update_id nth_map)
    then show ?thesis by (simp add: map_update)
  next
    case False
    then show ?thesis by (simp add: list_update_beyond)
  qed
  then show ?thesis by (simp add: merge_user_slots_into_tasks_def i)
qed

lemma analysis_never_synthesizes:
  "''Collect Customer Information'' \<notin> task_name ` set (tasks (analyze_with_rules prompt lang plat))"
proof -
  define ts0 where "ts0 = detect_tasks (lower prompt) (detect_domain (lower prompt))"
  have names: "map task_name (tasks (analyze_with_rules prompt lang plat)) = map task_name ts0"
    unfolding ts0_def
    by (simp add: analyze_with_rules_def Let_def merge_keeps_names detect_tasks_has_primary
        split: prod.splits)
  have "''Collect Customer Information'' \<notin> set (map task_name ts0)"
  proof
    assume "''Collect Customer Information'' \<in> set (map task_name ts0)"
    then obtain t where "t \<in> set ts0" "task_name t = ''Collect Customer Information''" by auto
    with detect_tasks_names [of t] known_not_synthesized show False
      unfolding ts0_def by fastforce
  qed
  then show ?thesis unfolding names [symmetric] by simp
qed

section \<open>The greeting task comes first\<close>

lemma detect_tasks_greeting_first: "\<exists>ts. detect_tasks text d = greet_pattern # ts"
  by (simp add: detect_tasks_def Let_def)

lemma first_index_Cons_skip:
  "\<not> P x \<Longrightarrow> first_index P (x # xs) = map_option Suc (first_index P xs)"
  by (cases "first_index P xs") simp_all

lemma primary_task_after_greeting:
  "primary_task (greet_pattern # ts) = map_option Suc (primary_task ts)"
proof -
  have g: "\<not> requires_api greet_pattern" "\<not> task_name greet_pattern \<noteq> ''Greeting''"
    by (simp_all add: greet_pattern_def)
  show ?thesis
    unfolding primary_task_def first_index_Cons_skip [of requires_api, OF g(1)]
      first_index_Cons_skip [of "\<lambda>t. task_name t \<noteq> ''Greeting''", OF g(2)]
    by (cases "first_index requires_api ts") simp_all
qed

lemma merge_keeps_greeting:
  "\<exists>ts'. merge_user_slots_into_tasks (greet_pattern # ts) user_slots = greet_pattern # ts'"
  unfolding merge_user_slots_into_tasks_def primary_task_after_greeting
  by (cases "primary_task ts") simp_all

lemma analysis_greeting_first:
  "\<exists>ts. tasks (analyze_with_rules prompt lang plat) = greet_pattern # ts"
proof -
  obtain ts0 where d: "detect_tasks (lower prompt) (detect_domain (lower prompt)) = greet_pattern # ts0"
    using detect_tasks_greeting_first by blast
  obtain ts1 where "merge_user_slots_into_tasks (greet_pattern # ts0) (extract_user_slots (lower prompt))
      = greet_pattern # ts1"
    using merge_keeps_greeting by blast
  then show ?thesis
    by (simp add: analyze_with_rules_def Let_def d split: prod.splits)
qed

lemma greeting_group_empty: "group_ids nodes greet_pattern = []"
  by (simp add: group_ids_def greet_pattern_def)

text \<open>
  In the flow for any request, a transition leads from the greeting node to
  \<open>node_confirm\<close>: the group of the first task, the greeting task, is empty.
\<close>

lemma rule_flow_greeting_to_confirm:
  "\<exists>fl. build_flow (brief_of rq) = Inr fl \<and> has_edge (fl_nodes fl) ''node_greet'' ''node_confirm''"
proof -
  define a where "a = brief_of rq"
  obtain ts where ts: "tasks a = greet_pattern # ts"
    unfolding a_def brief_of_def using analysis_greeting_first by blast
  obtain nodes' where w: "wire_transitions (flow_nodes a) (tasks a) = Inr nodes'"
      and ge: "has_edge nodes' ''node_greet'' (greet_target (map (group_ids (flow_nodes a)) (tasks a)))"
    using wire_transitions_ok [OF greet_present, of a "tasks a"] by blast
  have "greet_target (map (group_ids (flow_nodes a)) (tasks a)) = ''node_confirm''"
    by (simp add: ts greet_target_def greeting_group_empty)
  with ge have "has_edge nodes' ''node_greet'' ''node_confirm''" by simp
  then show ?thesis
    using w by (simp add: build_flow_def a_def)
qed

section \<open>The nodes reached from the entry node\<close>

lemma sealed_dict_iff:
  "sealed (map dict_view nodes) \<longleftrightarrow>
     (\<forall>n \<in> set nodes. node_id n \<in> set core_ids \<longrightarrow>
        (\<forall>t \<in> set (transitions n). target_node_id t \<in> set core_ids)
        \<and> node_type n \<noteq> ''collect_info'' \<and> node_type n \<noteq> ''api_call'')"
  by (simp add: sealed_def dict_view_def list_all_iff)

lemma sealed_model_iff:
  "sealed (map model_view nodes) \<longleftrightarrow>
     (\<forall>n \<in> set nodes. fnode_id n \<in> set core_ids \<longrightarrow>
        (\<forall>t \<in> set (fnode_transitions n). ft_target_node_id t \<in> set core_ids)
        \<and> node_type_value (fnode_type n) \<noteq> ''collect_info''
        \<and> node_type_value (fnode_type n) \<noteq> ''api_call'')"
  by (simp add: sealed_def model_view_def list_all_iff)

lemma sealed_step:
  assumes s: "sealed (map model_view (cf_nodes cf))"
    and st: "(n, m) \<in> flow_steps cf" and n: "fnode_id n \<in> set core_ids"
  shows "fnode_id m \<in> set core_ids"
proof -
  from st have nn: "n \<in> set (cf_nodes cf)"
    and t: "fnode_id m \<in> ft_target_node_id ` set (fnode_transitions n)"
    by (simp_all add: flow_steps_def)
  from s nn n have "\<forall>t \<in> set (fnode_transitions n). ft_target_node_id t \<in> set core_ids"
    unfolding sealed_model_iff by blast
  with t show ?thesis by auto
qed

lemma reachable_in_flow: "reachable_nodes cf \<subseteq> set (cf_nodes cf)"
proof
  fix m assume "m \<in> reachable_nodes cf"
  then obtain n where n: "n \<in> set (cf_nodes cf)" and r: "(n, m) \<in> (flow_steps cf)\<^sup>*"
    unfolding reachable_nodes_def by blast
  from r n show "m \<in> set (cf_nodes cf)"
    by (induction rule: rtrancl_induct) (simp_all add: flow_steps_def)
qed

lemma reachable_sealed:
  assumes s: "sealed (map model_view (cf_nodes cf))"
    and e: "cf_entry_node_id cf \<in> set core_ids"
  shows "fnode_id ` reachable_nodes cf \<subseteq> set core_ids"
proof
  fix x assume "x \<in> fnode_id ` reachable_nodes cf"
  then obtain n m where x: "x = fnode_id m" and n: "fnode_id n = cf_entry_node_id cf"
      and r: "(n, m) \<in> (flow_steps cf)\<^sup>*"
    unfolding reachable_nodes_def by blast
  have n0: "fnode_id n \<in> set core_ids" unfolding n by (rule e)
  from r n0 have "fnode_id m \<in> set core_ids"
  proof (induction rule: rtrancl_induct)
    case base
    then show ?case .
  next
    case (step y z)
    from step.IH [OF step.prems] have "fnode_id y \<in> set core_ids" .
    with sealed_step [OF s step.hyps(2)] show ?case .
  qed
  then show "x \<in> set core_ids" unfolding x .
qed

lemma reachable_sealed_types:
  assumes s: "sealed (map model_view (cf_nodes cf))"
    and e: "cf_entry_node_id cf \<in> set core_ids"
    and m: "m \<in> reachable_nodes cf"
  shows "fnode_type m \<noteq> COLLECT_INFO \<and> fnode_type m \<noteq> API_CALL"
proof -
  from m reachable_sealed [OF s e] have c: "fnode_id m \<in> set core_ids" by blast
  from m reachable_in_flow have "m \<in> set (cf_nodes cf)" by blast
  with s c have "node_type_value (fnode_type m) \<noteq> ''collect_info''
      \<and> node_type_value (fnode_type m) \<noteq> ''api_call''"
    unfolding sealed_model_iff by blast
  then show ?thesis by (cases "fnode_type m") simp_all
qed

lemma example_views_sealed: "sealed example_views"
  by code_simp

lemma example_views_types:
  "map (\<lambda>(i, ty, slot, fn, trs). (i, ty)) example_views =
     [(''node_greet'', ''greeting''),
      (''node_collect_customer_name'', ''collect_info''),
      (''node_collect_customer_name'', ''collect_info''),
      (''node_collect_preferred_date'', ''collect_info''),
      (''node_collect_preferred_time'', ''collect_info''),
      (''node_api_appointment_booking'', ''api_call''),
      (''node_decision_appointment_booking'', ''decision''),
      (''node_success_appointment_booking'', ''response''),
      (''node_failure_appointment_booking'', ''response''),
      (''node_api_confirm_availability'', ''api_call''),
      (''node_decision_confirm_availability'', ''decision''),
      (''node_success_confirm_availability'', ''response''),
      (''node_failure_confirm_availability'', ''response''),
      (''node_confirm'', ''confirm''),
      (''node_fallback'', ''fallback''),
      (''node_transfer'', ''transfer''),
      (''node_end'', ''end'')]"
  by (simp add: example_views_def)

lemma model_view_types:
  "map (\<lambda>n. (fnode_id n, node_type_value (fnode_type n))) nodes
     = map (\<lambda>(i, ty, slot, fn, trs). (i, ty)) (map model_view nodes)"
  by (simp add: model_view_def comp_def)

section \<open>Wiring never leads from the greeting into a task\<close>

lemma seals_Inr: "seals Inr"
  by (simp add: seals_def)

lemma seals_Inl: "seals (\<lambda>nodes. Inl (e nodes))"
  by (simp add: seals_def)

lemma seals_bind: "seals f \<Longrightarrow> seals g \<Longrightarrow> seals (\<lambda>nodes. try_bind (f nodes) g)"
  unfolding seals_def try_bind_Inr_iff by blast

lemma seals_if:
  assumes "seals f" and "seals g"
  shows "seals (\<lambda>nodes. if c nodes then f nodes else g nodes)"
  unfolding seals_def
proof (intro allI impI)
  fix nodes nodes'
  assume s: "sealed (map dict_view nodes)"
    and r: "(if c nodes then f nodes else g nodes) = Inr nodes'"
  show "sealed (map dict_view nodes')"
  proof (cases "c nodes")
    case True
    with r have "f nodes = Inr nodes'" by simp
    with assms(1) s show ?thesis unfolding seals_def by blast
  next
    case False
    with r have "g nodes = Inr nodes'" by simp
    with assms(2) s show ?thesis unfolding seals_def by blast
  qed
qed

lemma seals_add:
  assumes "nid \<in> set core_ids \<Longrightarrow> \<forall>t \<in> set trs. target_node_id t \<in> set core_ids"
  shows "seals (add_transitions nid trs)"
  unfolding seals_def
proof (intro allI impI)
  fix nodes nodes'
  assume s: "sealed (map dict_view nodes)" and a: "add_transitions nid trs nodes = Inr nodes'"
  from a obtain i where i: "node_map nodes nid = Some i"
    by (auto simp: add_transitions_def split: option.splits)
  define n' where "n' = (nodes ! i)\<lparr>transitions := transitions (nodes ! i) @ trs\<rparr>"
  from a i have r: "nodes' = nodes[i := n']" by (simp add: add_transitions_def n'_def)
  from node_map_SomeD [OF i] have il: "i < length nodes" and id: "node_id (nodes ! i) = nid" by auto
  have old: "nodes ! i \<in> set nodes" using il by simp
  show "sealed (map dict_view nodes')"
    unfolding sealed_dict_iff
  proof (intro ballI impI)
    fix n assume n: "n \<in> set nodes'" and c: "node_id n \<in> set core_ids"
    from n r have "n = n' \<or> n \<in> set nodes" using set_update_subset_insert by fastforce
    then show "(\<forall>t \<in> set (transitions n). target_node_id t \<in> set core_ids)
        \<and> node_type n \<noteq> ''collect_info'' \<and> node_type n \<noteq> ''api_call''"
    proof
      assume e: "n = n'"
      then have "node_id (nodes ! i) \<in> set core_ids" using c by (simp add: n'_def)
      with s old have o: "(\<forall>t \<in> set (transitions (nodes ! i)). target_node_id t \<in> set core_ids)
          \<and> node_type (nodes ! i) \<noteq> ''collect_info'' \<and> node_type (nodes ! i) \<noteq> ''api_call''"
        unfolding sealed_dict_iff by blast
      have "nid \<in> set core_ids" using c e id by (simp add: n'_def)
      from assms [OF this] o show ?thesis by (simp add: e n'_def) blast
    next
      assume "n \<in> set nodes"
      with s c show ?thesis unfolding sealed_dict_iff by blast
    qed
  qed
qed

lemma seals_add_if_present:
  assumes "nid \<in> set core_ids \<Longrightarrow> \<forall>t \<in> set trs. target_node_id t \<in> set core_ids"
  shows "seals (add_if_present nid trs)"
proof -
  have "seals (\<lambda>nodes. if node_map nodes nid \<noteq> None then add_transitions nid trs nodes else Inr nodes)"
    by (rule seals_if [OF seals_add [OF assms] seals_Inr])
  then show ?thesis unfolding add_if_present_def [abs_def] .
qed

lemma outer_ids:
  "''node_success_'' @ x \<notin> set core_ids" "''node_failure_'' @ x \<notin> set core_ids"
  "''node_collect_'' @ x \<notin> set core_ids" "''node_api_'' @ x \<notin> set core_ids"
  "''node_decision_'' @ x \<notin> set core_ids"
  "''node_fallback'' \<notin> set core_ids" "''node_transfer'' \<notin> set core_ids"
  by (simp_all add: core_ids_def)

lemma seals_add_outer: "nid \<notin> set core_ids \<Longrightarrow> seals (add_transitions nid trs)"
  by (rule seals_add) simp

lemma seals_decision:
  assumes "nid \<notin> set core_ids"
  shows "seals (wire_decision nid)"
  unfolding wire_decision_def [abs_def] Let_def
  by (intro seals_bind seals_if seals_Inr seals_add_outer outer_ids assms)

lemma seals_node:
  assumes "nid \<notin> set core_ids"
  shows "seals (wire_node nid nx)"
  unfolding seals_def
proof (intro allI impI)
  fix nodes nodes'
  assume s: "sealed (map dict_view nodes)" and w: "wire_node nid nx nodes = Inr nodes'"
  have a: "sealed (map dict_view nodes')" if "add_transitions nid trs nodes = Inr nodes'" for trs
    using seals_add_outer [OF assms, of trs] s that unfolding seals_def by blast
  have d: "sealed (map dict_view nodes')" if "wire_decision nid nodes = Inr nodes'"
    using seals_decision [OF assms] s that unfolding seals_def by blast
  show "sealed (map dict_view nodes')"
  proof (cases "node_map nodes nid")
    case None
    with w show ?thesis by (simp add: wire_node_def)
  next
    case (Some i)
    define ty where "ty = node_type (nodes ! i)"
    from w have w': "(if ty = ''collect_info''
            then add_transitions nid [mk_transition ''slot_filled'' (next_or_confirm nx)] nodes
          else if ty = ''api_call''
            then add_transitions nid [mk_transition ''api_response_received'' (next_or_confirm nx)] nodes
          else if ty = ''decision''
            then wire_decision nid nodes
          else Inr nodes) = Inr nodes'"
      unfolding wire_node_def Some option.case ty_def .
    show ?thesis
    proof (cases "ty = ''collect_info''")
      case True
      with w' have "add_transitions nid [mk_transition ''slot_filled'' (next_or_confirm nx)] nodes
                      = Inr nodes'" by simp
      then show ?thesis by (rule a)
    next
      case c: False
      show ?thesis
      proof (cases "ty = ''api_call''")
        case True
        with w' c have "add_transitions nid [mk_transition ''api_response_received'' (next_or_confirm nx)] nodes
                      = Inr nodes'" by simp
        then show ?thesis by (rule a)
      next
        case p: False
        show ?thesis
        proof (cases "ty = ''decision''")
          case True
          with w' c p have "wire_decision nid nodes = Inr nodes'" by simp
          then show ?thesis by (rule d)
        next
          case False
          with w' c p have "nodes = nodes'" by simp
          with s show ?thesis by simp
        qed
      qed
    qed
  qed
qed

lemma seals_chain_group: "set g \<inter> set core_ids = {} \<Longrightarrow> seals (chain_group g)"
proof (induction g)
  case Nil
  have "chain_group [] = Inr" by (rule ext) simp
  then show ?case by (simp add: seals_Inr)
next
  case (Cons nid rest)
  have e: "chain_group (nid # rest)
        = (\<lambda>nodes. try_bind (wire_node nid (case rest of [] \<Rightarrow> None | nx # nxs \<Rightarrow> Some nx) nodes)
                            (chain_group rest))"
    by (rule ext) simp
  have "nid \<notin> set core_ids" using Cons.prems by auto
  then have "seals (wire_node nid (case rest of [] \<Rightarrow> None | nx # nxs \<Rightarrow> Some nx))"
    by (rule seals_node)
  moreover have "seals (chain_group rest)" using Cons by auto
  ultimately show ?case unfolding e by (rule seals_bind)
qed

lemma seals_chain_groups: "\<forall>g \<in> set gs. set g \<inter> set core_ids = {} \<Longrightarrow> seals (chain_groups gs)"
proof (induction gs)
  case Nil
  have "chain_groups [] = Inr" by (rule ext) simp
  then show ?case by (simp add: seals_Inr)
next
  case (Cons g gs)
  have e: "chain_groups (g # gs) = (\<lambda>nodes. try_bind (chain_group g nodes) (chain_groups gs))"
    by (rule ext) simp
  have "seals (chain_group g)" using Cons.prems by (simp add: seals_chain_group)
  moreover have "seals (chain_groups gs)" using Cons by simp
  ultimately show ?case unfolding e by (rule seals_bind)
qed

lemma group_ids_outer: "set (group_ids nodes t) \<inter> set core_ids = {}"
proof -
  have "nid \<notin> set core_ids" if "nid \<in> set (group_ids nodes t)" for nid
    using that outer_ids by (auto simp: group_ids_def Let_def split: if_splits)
  then show ?thesis by blast
qed

lemma flow_nodes_sealed: "sealed (map dict_view (flow_nodes a))"
  unfolding sealed_dict_iff
proof (intro ballI impI)
  fix n assume n: "n \<in> set (flow_nodes a)" and c: "node_id n \<in> set core_ids"
  from flow_nodes_cases [OF n]
  consider "n = greet_node a" | "n \<in> set closing_nodes"
    | t where "n \<in> set (task_nodes (functions_needed a) t)" by blast
  then show "(\<forall>t \<in> set (transitions n). target_node_id t \<in> set core_ids)
        \<and> node_type n \<noteq> ''collect_info'' \<and> node_type n \<noteq> ''api_call''"
  proof cases
    case 1
    then show ?thesis by (simp add: greet_node_def mk_node_def)
  next
    case 2
    then show ?thesis by (auto simp: closing_nodes_def mk_node_def)
  next
    case 3
    from task_nodes_cases [OF 3]
    have "(\<exists>x. node_id n = ''node_collect_'' @ x) \<or> (\<exists>x. node_id n = ''node_api_'' @ x)
        \<or> (\<exists>x. node_id n = ''node_decision_'' @ x) \<or> (\<exists>x. node_id n = ''node_success_'' @ x)
        \<or> (\<exists>x. node_id n = ''node_failure_'' @ x)"
      by (auto simp: collect_node_def api_nodes_def Let_def mk_node_def)
    with c outer_ids show ?thesis by metis
  qed
qed

lemma wire_transitions_sealed:
  assumes "sealed (map dict_view nodes)"
    and "wire_transitions nodes (greet_pattern # ts) = Inr nodes'"
  shows "sealed (map dict_view nodes')"
proof -
  define gs where "gs = map (group_ids nodes) (greet_pattern # ts)"
  have gt: "greet_target gs = ''node_confirm''"
    by (simp add: gs_def greet_target_def greeting_group_empty)
  have in_core: "''node_confirm'' \<in> set core_ids" "''node_end'' \<in> set core_ids"
      "''node_greet'' \<in> set core_ids"
    by (simp_all add: core_ids_def)
  have g: "\<forall>g \<in> set gs. set g \<inter> set core_ids = {}"
    unfolding gs_def using group_ids_outer by auto
  have "seals (\<lambda>nodes. try_bind (add_transitions ''node_greet'' [mk_transition ''user_responds'' (greet_target gs)] nodes)
        (\<lambda>nodes1. try_bind (chain_groups gs nodes1)
        (\<lambda>nodes2. try_bind
           (add_if_present ''node_confirm''
              [mk_transition ''nothing_else'' ''node_end'',
               mk_transition ''has_more_questions'' ''node_greet''] nodes2)
        (\<lambda>nodes3. try_bind (add_if_present ''node_fallback'' [mk_transition ''retry'' ''node_greet''] nodes3)
           (add_if_present ''node_transfer'' [mk_transition ''transferred'' ''node_end''])))))"
  proof (intro seals_bind)
    show "seals (add_transitions ''node_greet'' [mk_transition ''user_responds'' (greet_target gs)])"
      by (rule seals_add) (simp add: gt mk_transition_def in_core)
    show "seals (chain_groups gs)" by (rule seals_chain_groups [OF g])
    show "seals (add_if_present ''node_confirm''
              [mk_transition ''nothing_else'' ''node_end'',
               mk_transition ''has_more_questions'' ''node_greet''])"
      by (rule seals_add_if_present) (simp add: mk_transition_def in_core)
    show "seals (add_if_present ''node_fallback'' [mk_transition ''retry'' ''node_greet''])"
      by (rule seals_add_if_present) (simp add: outer_ids)
    show "seals (add_if_present ''node_transfer'' [mk_transition ''transferred'' ''node_end''])"
      by (rule seals_add_if_present) (simp add: outer_ids)
  qed
  moreover have "wire_transitions nodes (greet_pattern # ts) = try_bind (add_transitions ''node_greet'' [mk_transition ''user_responds'' (greet_target gs)] nodes)
        (\<lambda>nodes1. try_bind (chain_groups gs nodes1)
        (\<lambda>nodes2. try_bind
           (add_if_present ''node_confirm''
              [mk_transition ''nothing_else'' ''node_end'',
               mk_transition ''has_more_questions'' ''node_greet''] nodes2)
        (\<lambda>nodes3. try_bind (add_if_present ''node_fallback'' [mk_transition ''retry'' ''node_greet''] nodes3)
           (add_if_present ''node_transfer'' [mk_transition ''transferred'' ''node_end'']))))"
    unfolding wire_transitions_def Let_def gs_def ..
  ultimately show ?thesis using assms unfolding seals_def by metis
qed

lemma rule_flow_sealed:
  assumes "build_flow (brief_of rq) = Inr fl"
  shows "sealed (map dict_view (fl_nodes fl))"
proof -
  obtain ts where ts: "tasks (brief_of rq) = greet_pattern # ts"
    unfolding brief_of_def using analysis_greeting_first by blast
  from assms obtain nodes' where
      w: "wire_transitions (flow_nodes (brief_of rq)) (greet_pattern # ts) = Inr nodes'"
    and f: "fl_nodes fl = nodes'"
    unfolding build_flow_def try_bind_Inr_iff ts by auto
  show ?thesis unfolding f by (rule wire_transitions_sealed [OF flow_nodes_sealed w])
qed

text \<open>
  In the flow for any request no path from the entry node leaves the greeting node,
  \<open>node_confirm\<close> and \<open>node_end\<close>, and no node that collects a slot or calls an API is
  reached.
\<close>

lemma rule_flow_task_nodes_unreachable:
  "\<exists>cfg cf.
      agent_config (process_request w rq) = Some cfg
    \<and> cx_conversation_flow cfg = Some cf
    \<and> fnode_id ` reachable_nodes cf \<subseteq> {''node_greet'', ''node_confirm'', ''node_end''}
    \<and> (\<forall>m \<in> reachable_nodes cf. fnode_type m \<noteq> COLLECT_INFO \<and> fnode_type m \<noteq> API_CALL)"
proof -
  from process_request_rule [of rq w] obtain fl cfg cf where
      fl: "build_flow (brief_of rq) = Inr fl"
    and p: "process_request w rq =
        \<lparr>success = True,
         message = ''Successfully created CX agent '' @ [CHR 0x27] @ agent_name_suggestion (brief_of rq)
                   @ [CHR 0x27] @ '' with '' @ str_of_nat (length (functions_needed (brief_of rq)))
                   @ '' functions and '' @ str_of_nat (length (tasks (brief_of rq)) + 3) @ '' intents.'',
         agent_config = Some cfg,
         openai_tools_schema = Some (to_openai_tools (create_functions (functions_needed (brief_of rq)))),
         raw_analysis = Some (brief_of rq)\<rparr>"
    and cf: "cx_conversation_flow cfg = Some cf"
    and v: "map model_view (cf_nodes cf) = map dict_view (fl_nodes fl)"
    and e: "cf_entry_node_id cf = fl_entry_node_id fl"
    by (elim exE conjE) (rule that)
  have a: "agent_config (process_request w rq) = Some cfg" unfolding p by simp
  from fl have "fl_entry_node_id fl = ''node_greet''"
    unfolding build_flow_def try_bind_Inr_iff by auto
  with e have c: "cf_entry_node_id cf \<in> set core_ids" by (simp add: core_ids_def)
  have s: "sealed (map model_view (cf_nodes cf))" unfolding v by (rule rule_flow_sealed [OF fl])
  have r: "fnode_id ` reachable_nodes cf \<subseteq> {''node_greet'', ''node_confirm'', ''node_end''}"
    using reachable_sealed [OF s c] by (simp only: core_ids_def list.set)
  have t: "\<forall>m \<in> reachable_nodes cf. fnode_type m \<noteq> COLLECT_INFO \<and> fnode_type m \<noteq> API_CALL"
    using reachable_sealed_types [OF s c] by blast
  show ?thesis
  proof (intro exI conjI)
    show "agent_config (process_request w rq) = Some cfg" by (rule a)
    show "cx_conversation_flow cfg = Some cf" by (rule cf)
    show "fnode_id ` reachable_nodes cf \<subseteq> {''node_greet'', ''node_confirm'', ''node_end''}" by (rule r)
    show "\<forall>m \<in> reachable_nodes cf. fnode_type m \<noteq> COLLECT_INFO \<and> fnode_type m \<noteq> API_CALL" by (rule t)
  qed
qed

section \<open>Voice gender detection\<close>

lemma male_in_female_voice: "str_in ''male voice'' ''female voice''"
  by code_simp

lemma male_in_female_agent: "str_in ''male agent'' ''female agent''"
  by code_simp

lemma female_phrase_detected_male:
  assumes "str_in ''female voice'' s \<or> str_in ''female agent'' s"
  shows "detect_voice_gender s = ''male''"
proof -
  from assms have "str_in ''male voice'' s \<or> str_in ''male agent'' s"
    using str_in_trans [OF male_in_female_voice] str_in_trans [OF male_in_female_agent] by blast
  then show ?thesis by (simp add: detect_voice_gender_def)
qed

lemma male_phrase_detected_male:
  "str_in ''male voice'' s \<or> str_in ''male agent'' s \<Longrightarrow> detect_voice_gender s = ''male''"
  by (simp add: detect_voice_gender_def)

lemma no_phrase_detected_female:
  "\<not> str_in ''male voice'' s \<Longrightarrow> \<not> str_in ''male agent'' s \<Longrightarrow> detect_voice_gender s = ''female''"
  by (simp add: detect_voice_gender_def)

section \<open>The loop that collects required parameters\<close>

lemma flagged_required_iff:
  "flagged_required p \<longleftrightarrow> (case fp_required p of None \<Rightarrow> True | Some r \<Rightarrow> r)"
  by (cases "fp_required p") (simp_all add: flagged_required_def)

lemma tool_param_steps_required:
  "snd (foldl tool_param_step st ps) = snd st @ map fp_name (filter flagged_required ps)"
proof (induction ps arbitrary: st)
  case Nil
  show ?case by simp
next
  case (Cons p ps)
  obtain props req where st: "st = (props, req)" by (cases st)
  have "snd (tool_param_step st p) = snd st @ map fp_name (filter flagged_required [p])"
    by (simp add: st tool_param_step_def flagged_required_iff)
  then show ?case
    unfolding foldl_Cons Cons.IH by simp
qed

lemma schema_param_steps_required:
  "snd (foldl schema_param_step st ps) = snd st @ map prm_name (filter prm_required ps)"
proof (induction ps arbitrary: st)
  case Nil
  show ?case by simp
next
  case (Cons p ps)
  obtain props req where st: "st = (props, req)" by (cases st)
  show ?case
    unfolding foldl_Cons Cons.IH by (simp add: st schema_param_step_def)
qed

lemma to_openai_tool_required:
  "ts_required (to_openai_tool fn) = map fp_name (filter flagged_required (fd_parameters fn))"
proof -
  obtain props req where r: "foldl tool_param_step ([], []) (fd_parameters fn) = (props, req)"
    by (cases "foldl tool_param_step ([], []) (fd_parameters fn)")
  have "req = snd (foldl tool_param_step ([], []) (fd_parameters fn))" by (simp add: r)
  then have "req = map fp_name (filter flagged_required (fd_parameters fn))"
    by (simp add: tool_param_steps_required)
  then show ?thesis by (simp add: to_openai_tool_def r)
qed

lemma to_openai_tool_schema_required:
  "ts_required (to_openai_tool_schema f) = map prm_name (filter prm_required (fdef_parameters f))"
proof -
  obtain props req where r: "foldl schema_param_step ([], []) (fdef_parameters f) = (props, req)"
    by (cases "foldl schema_param_step ([], []) (fdef_parameters f)")
  have "req = snd (foldl schema_param_step ([], []) (fdef_parameters f))" by (simp add: r)
  then have "req = map prm_name (filter prm_required (fdef_parameters f))"
    by (simp add: schema_param_steps_required)
  then show ?thesis by (simp add: to_openai_tool_schema_def r)
qed

section \<open>Claim C1: reachability of the task nodes\<close>

text \<open>
  Claim C1 says that every \<open>collect_info\<close> and \<open>api_call\<close> node created for a task
  of the brief is reachable from the entry node by following transitions. Wiring gives
  the greeting node one transition, to the first id of the group of the first task or to
  \<open>node_confirm\<close> when that group is empty, and adds no transition into the group of any
  other task. The first task of every brief of the rule-based analysis is the greeting
  task, whose group is empty. For the example request, in every world, the flow holds
  four \<open>collect_info\<close> nodes and two \<open>api_call\<close> nodes, its entry id is \<open>node_greet\<close>,
  and every node reached from the entry node carries one of the ids \<open>node_greet\<close>,
  \<open>node_confirm\<close> and \<open>node_end\<close>: none of the six nodes created for the tasks is
  reached.
\<close>

theorem example_task_nodes_unreachable:
  "\<exists>cfg cf.
      agent_config (process_request w example_request) = Some cfg
    \<and> cx_conversation_flow cfg = Some cf
    \<and> cf_entry_node_id cf = ''node_greet''
    \<and> map (\<lambda>n. (fnode_id n, node_type_value (fnode_type n))) (cf_nodes cf) =
        [(''node_greet'', ''greeting''),
         (''node_collect_customer_name'', ''collect_info''),
         (''node_collect_customer_name'', ''collect_info''),
         (''node_collect_preferred_date'', ''collect_info''),
         (''node_collect_preferred_time'', ''collect_info''),
         (''node_api_appointment_booking'', ''api_call''),
         (''node_decision_appointment_booking'', ''decision''),
         (''node_success_appointment_booking'', ''response''),
         (''node_failure_appointment_booking'', ''response''),
         (''node_api_confirm_availability'', ''api_call''),
         (''node_decision_confirm_availability'', ''decision''),
         (''node_success_confirm_availability'', ''response''),
         (''node_failure_confirm_availability'', ''response''),
         (''node_confirm'', ''confirm''),
         (''node_fallback'', ''fallback''),
         (''node_transfer'', ''transfer''),
         (''node_end'', ''end'')]
    \<and> fnode_id ` reachable_nodes cf \<subseteq> {''node_greet'', ''node_confirm'', ''node_end''}"
proof -
  from example_output [of w] obtain cfg cf where
      o: "agent_config (process_request w example_request) = Some cfg"
      "cx_conversation_flow cfg = Some cf"
    and e: "cf_entry_node_id cf = ''node_greet''"
    and v: "map model_view (cf_nodes cf) = example_views"
    by (elim exE conjE) (rule that)
  have s: "sealed (map model_view (cf_nodes cf))" unfolding v by (rule example_views_sealed)
  have c: "cf_entry_node_id cf \<in> set core_ids" unfolding e by (simp add: core_ids_def)
  have r: "fnode_id ` reachable_nodes cf \<subseteq> {''node_greet'', ''node_confirm'', ''node_end''}"
    using reachable_sealed [OF s c] by (simp only: core_ids_def list.set)
  show ?thesis
  proof (intro exI conjI)
    show "agent_config (process_request w example_request) = Some cfg" by (rule o(1))
    show "cx_conversation_flow cfg = Some cf" by (rule o(2))
    show "cf_entry_node_id cf = ''node_greet''" by (rule e)
    show "fnode_id ` reachable_nodes cf \<subseteq> {''node_greet'', ''node_confirm'', ''node_end''}"
      by (rule r)
    show "map (\<lambda>n. (fnode_id n, node_type_value (fnode_type n))) (cf_nodes cf) =
        [(''node_greet'', ''greeting''),
         (''node_collect_customer_name'', ''collect_info''),
         (''node_collect_customer_name'', ''collect_info''),
         (''node_collect_preferred_date'', ''collect_info''),
         (''node_collect_preferred_time'', ''collect_info''),
         (''node_api_appointment_booking'', ''api_call''),
         (''node_decision_appointment_booking'', ''decision''),
         (''node_success_appointment_booking'', ''response''),
         (''node_failure_appointment_booking'', ''response''),
         (''node_api_confirm_availability'', ''api_call''),
         (''node_decision_confirm_availability'', ''decision''),
         (''node_success_confirm_availability'', ''response''),
         (''node_failure_confirm_availability'', ''response''),
         (''node_confirm'', ''confirm''),
         (''node_fallback'', ''fallback''),
         (''node_transfer'', ''transfer''),
         (''node_end'', ''end'')]"
      unfolding model_view_types v by (rule example_views_types)
  qed
qed

section \<open>Claim C2: the transition of the greeting node\<close>

text \<open>
  Claim C2 says that the greeting node leads to the first \<open>collect_info\<close> or \<open>api_call\<close>
  node produced for a task, and to \<open>node_confirm\<close> only when no task contributes such a
  node. The source looks at the group of the first task only, and the first task of every
  brief of the rule-based analysis is the greeting task, whose group is empty. For the
  example request, in every world, the greeting node is the first node of the flow, its
  only transition leads to \<open>node_confirm\<close>, and the node after it is the
  \<open>collect_info\<close> node \<open>node_collect_customer_name\<close> that a task contributed.
\<close>

theorem example_greeting_skips_tasks:
  "\<exists>cfg cf n.
      agent_config (process_request w example_request) = Some cfg
    \<and> cx_conversation_flow cfg = Some cf
    \<and> cf_nodes cf ! 0 = n \<and> fnode_id n = ''node_greet'' \<and> fnode_type n = GREETING
    \<and> map ft_target_node_id (fnode_transitions n) = [''node_confirm'']
    \<and> fnode_id (cf_nodes cf ! 1) = ''node_collect_customer_name''
    \<and> fnode_type (cf_nodes cf ! 1) = COLLECT_INFO"
proof -
  from example_output [of w] obtain cfg cf where
      o: "agent_config (process_request w example_request) = Some cfg"
      "cx_conversation_flow cfg = Some cf"
    and v: "map model_view (cf_nodes cf) = example_views"
    by (elim exE conjE) (rule that)
  have "length (map model_view (cf_nodes cf)) = length example_views" by (simp only: v)
  then have l: "1 < length (cf_nodes cf)" "0 < length (cf_nodes cf)"
    by (simp_all add: example_views_def)
  have "map model_view (cf_nodes cf) ! 0 = example_views ! 0"
       "map model_view (cf_nodes cf) ! 1 = example_views ! 1" by (simp_all only: v)
  then have m0: "model_view (cf_nodes cf ! 0)
                  = (''node_greet'', ''greeting'', None, None, [(''user_responds'', ''node_confirm'')])"
       and m1: "model_view (cf_nodes cf ! 1)
                  = (''node_collect_customer_name'', ''collect_info'', Some ''customer_name'', None, [])"
    using l by (simp_all add: example_views_def)
  show ?thesis
  proof (intro exI conjI)
    show "agent_config (process_request w example_request) = Some cfg" by (rule o(1))
    show "cx_conversation_flow cfg = Some cf" by (rule o(2))
    show "cf_nodes cf ! 0 = cf_nodes cf ! 0" ..
    show "fnode_id (cf_nodes cf ! 0) = ''node_greet''" by (rule model_view_parts(1) [OF m0])
    show "fnode_type (cf_nodes cf ! 0) = GREETING"
      by (rule node_type_of_value(1) [OF model_view_parts(2) [OF m0]])
    show "map ft_target_node_id (fnode_transitions (cf_nodes cf ! 0)) = [''node_confirm'']"
      using model_view_parts(5) [OF m0] by simp
    show "fnode_id (cf_nodes cf ! 1) = ''node_collect_customer_name''"
      by (rule model_view_parts(1) [OF m1])
    show "fnode_type (cf_nodes cf ! 1) = COLLECT_INFO"
      by (rule node_type_of_value(2) [OF model_view_parts(2) [OF m1]])
  qed
qed

section \<open>Claim C3: every node but the end node has a transition\<close>

text \<open>
  Claim C3 says that after wiring every node whose type is not \<open>end\<close> has a transition,
  also when two tasks share a slot name. Two tasks that share a slot each create a node
  with the same id; \<open>node_map\<close> keeps the later one, which receives the transitions of
  both groups, and the earlier one stays as it was created. For the example request, whose
  tasks Collect Customer Name and Appointment Booking share the slot \<open>customer_name\<close>,
  the flow holds a \<open>collect_info\<close> node \<open>node_collect_customer_name\<close> without any
  transition.
\<close>

theorem example_shadowed_node_unwired:
  "\<exists>cfg cf n.
      agent_config (process_request w example_request) = Some cfg
    \<and> cx_conversation_flow cfg = Some cf
    \<and> n \<in> set (cf_nodes cf)
    \<and> fnode_id n = ''node_collect_customer_name'' \<and> fnode_type n = COLLECT_INFO
    \<and> fnode_transitions n = []"
proof -
  from example_output [of w] obtain cfg cf where
      o: "agent_config (process_request w example_request) = Some cfg"
      "cx_conversation_flow cfg = Some cf"
    and v: "map model_view (cf_nodes cf) = example_views"
    by (elim exE conjE) (rule that)
  have "(''node_collect_customer_name'', ''collect_info'', Some ''customer_name'', None, [])
          \<in> set (map model_view (cf_nodes cf))"
    unfolding v by (simp add: example_views_def)
  then obtain n where n: "n \<in> set (cf_nodes cf)"
      "model_view n = (''node_collect_customer_name'', ''collect_info'', Some ''customer_name'', None, [])"
    by auto
  show ?thesis
  proof (intro exI conjI)
    show "agent_config (process_request w example_request) = Some cfg" by (rule o(1))
    show "cx_conversation_flow cfg = Some cf" by (rule o(2))
    show "n \<in> set (cf_nodes cf)" by (rule n(1))
    show "fnode_id n = ''node_collect_customer_name''" by (rule model_view_parts(1) [OF n(2)])
    show "fnode_type n = COLLECT_INFO"
      by (rule node_type_of_value(2) [OF model_view_parts(2) [OF n(2)]])
    show "fnode_transitions n = []" using model_view_parts(6) [OF n(2)] by simp
  qed
qed

section \<open>Claim C4: API nodes refer to functions of the catalogue\<close>

text \<open>
  Claim C4. For every request and every world, the rule-based pipeline answers with a
  configuration that has a conversation flow, and every node of type \<open>api_call\<close> in
  that flow carries a function reference that is the name of a function definition in the
  catalogue of the same configuration.
\<close>

theorem api_call_nodes_resolve:
  "\<exists>cfg cf. agent_config (process_request w rq) = Some cfg
      \<and> cx_conversation_flow cfg = Some cf
      \<and> (\<forall>n \<in> set (cf_nodes cf). fnode_type n = API_CALL \<longrightarrow>
            (\<exists>f \<in> set (cx_functions cfg). fnode_function_call n = Some (fdef_name f)))"
proof -
  define a where "a = brief_of rq"
  from process_request_rule [of rq w] obtain fl cfg cf where
      fl: "build_flow a = Inr fl"
    and r: "agent_config (process_request w rq) = Some cfg"
    and names: "map fdef_name (cx_functions cfg) = map fr_name (functions_needed a)"
    and cf: "cx_conversation_flow cfg = Some cf"
    and views: "map model_view (cf_nodes cf) = map dict_view (fl_nodes fl)"
    unfolding a_def by force
  have fn: "functions_needed a = detect_functions (tasks a)"
    unfolding a_def brief_of_def by (rule analysis_functions_needed)
  have "\<exists>f \<in> set (cx_functions cfg). fnode_function_call n = Some (fdef_name f)"
    if n: "n \<in> set (cf_nodes cf)" and ty: "fnode_type n = API_CALL" for n
  proof -
    from n have "model_view n \<in> set (map dict_view (fl_nodes fl))"
      unfolding views [symmetric] by simp
    then obtain d where d: "d \<in> set (fl_nodes fl)" "dict_view d = model_view n" by auto
    from d(2) ty have dt: "node_type d = ''api_call''" "function_call d = fnode_function_call n"
      by (simp_all add: dict_view_def model_view_def)
    from flow_api_nodes_resolve [OF fn fl d(1) dt(1)] obtain f where
      f: "f \<in> set (functions_needed a)" "function_call d = Some (fr_name f)" by blast
    from f(1) have "fr_name f \<in> set (map fdef_name (cx_functions cfg))"
      unfolding names by simp
    then obtain g where g: "g \<in> set (cx_functions cfg)" "fdef_name g = fr_name f" by auto
    have "fnode_function_call n = Some (fdef_name g)" using f(2) dt(2) g(2) by simp
    with g(1) show ?thesis by blast
  qed
  with r cf show ?thesis by blast
qed

text \<open>
  For the example request the flow has the \<open>api_call\<close> node
  \<open>node_api_confirm_availability\<close>; its reference resolves to the function
  \<open>get_appointment_slots\<close> of the catalogue.
\<close>

theorem api_call_nodes_resolve_witness:
  "\<exists>cfg cf n f. agent_config (process_request world_a example_request) = Some cfg
      \<and> cx_conversation_flow cfg = Some cf
      \<and> n \<in> set (cf_nodes cf) \<and> fnode_id n = ''node_api_confirm_availability''
      \<and> fnode_type n = API_CALL
      \<and> f \<in> set (cx_functions cfg) \<and> fnode_function_call n = Some (fdef_name f)
      \<and> fdef_name f = ''get_appointment_slots''"
proof -
  from api_call_nodes_resolve [of world_a example_request] obtain cfg cf where
      c: "agent_config (process_request world_a example_request) = Some cfg"
      "cx_conversation_flow cfg = Some cf"
    and r: "\<forall>n \<in> set (cf_nodes cf). fnode_type n = API_CALL \<longrightarrow>
            (\<exists>f \<in> set (cx_functions cfg). fnode_function_call n = Some (fdef_name f))"
    by (elim exE conjE) (rule that)
  from example_output [of world_a] c have v: "map model_view (cf_nodes cf) = example_views"
    by (elim exE conjE) simp
  have "(''node_api_confirm_availability'', ''api_call'', None, Some ''get_appointment_slots'',
        [(''api_response_received'', ''node_decision_confirm_availability'')])
          \<in> set (map model_view (cf_nodes cf))"
    unfolding v by (simp add: example_views_def)
  then obtain n where n: "n \<in> set (cf_nodes cf)"
      "model_view n = (''node_api_confirm_availability'', ''api_call'', None, Some ''get_appointment_slots'',
        [(''api_response_received'', ''node_decision_confirm_availability'')])"
    by auto
  have ty: "fnode_type n = API_CALL"
    by (rule node_type_of_value(3) [OF model_view_parts(2) [OF n(2)]])
  from r n(1) ty obtain f where f: "f \<in> set (cx_functions cfg)"
      "fnode_function_call n = Some (fdef_name f)" by blast
  have "fnode_function_call n = Some ''get_appointment_slots''" by (rule model_view_parts(4) [OF n(2)])
  with f(2) have fname: "fdef_name f = ''get_appointment_slots''" by simp
  show ?thesis
  proof (intro exI conjI)
    show "agent_config (process_request world_a example_request) = Some cfg" by (rule c(1))
    show "cx_conversation_flow cfg = Some cf" by (rule c(2))
    show "n \<in> set (cf_nodes cf)" by (rule n(1))
    show "fnode_id n = ''node_api_confirm_availability''" by (rule model_view_parts(1) [OF n(2)])
    show "fnode_type n = API_CALL" by (rule ty)
    show "f \<in> set (cx_functions cfg)" by (rule f(1))
    show "fnode_function_call n = Some (fdef_name f)" by (rule f(2))
    show "fdef_name f = ''get_appointment_slots''" by (rule fname)
  qed
qed

section \<open>Claim C5: the example scenario\<close>

text \<open>
  Claim C5 describes the output for the example request and says that it has exactly one
  function definition. The request also matches the keywords of the task Confirm
  Availability, which requires an API, so the catalogue has two functions. As amended:
  for the example request with language \<open>en-US\<close>, in every world, the domain is
  \<open>healthcare\<close>; the extracted slots are \<open>customer_name\<close> and \<open>preferred_date\<close>; the
  task Appointment Booking has the slots \<open>customer_name\<close>, \<open>preferred_date\<close> and
  \<open>preferred_time\<close>; the catalogue holds exactly the two functions
  \<open>get_appointment_slots\<close> and \<open>check_availability\<close>, both with method \<open>GET\<close>; the
  flow contains the nodes \<open>node_greet\<close>, \<open>node_collect_customer_name\<close>,
  \<open>node_collect_preferred_date\<close>, \<open>node_api_appointment_booking\<close>, \<open>node_confirm\<close> and
  \<open>node_end\<close>; and \<open>node_confirm\<close> has a transition to \<open>node_end\<close>.
\<close>

theorem example_scenario:
  "\<exists>a cfg cf.
      raw_analysis (process_request w example_request) = Some a
    \<and> agent_config (process_request w example_request) = Some cfg
    \<and> domain a = ''healthcare''
    \<and> user_requested_slots a = [''customer_name'', ''preferred_date'']
    \<and> (\<exists>t \<in> set (tasks a). task_name t = ''Appointment Booking''
          \<and> data_to_collect t = [''customer_name'', ''preferred_date'', ''preferred_time''])
    \<and> map function_view (cx_functions cfg)
          = [(''get_appointment_slots'', Some ''GET''), (''check_availability'', Some ''GET'')]
    \<and> cx_conversation_flow cfg = Some cf
    \<and> {''node_greet'', ''node_collect_customer_name'', ''node_collect_preferred_date'',
         ''node_api_appointment_booking'', ''node_confirm'', ''node_end''} \<subseteq> fnode_id ` set (cf_nodes cf)
    \<and> (\<exists>n \<in> set (cf_nodes cf). fnode_id n = ''node_confirm''
          \<and> ''node_end'' \<in> ft_target_node_id ` set (fnode_transitions n))"
proof -
  from example_output [of w] obtain cfg cf where
      o: "agent_config (process_request w example_request) = Some cfg"
      "raw_analysis (process_request w example_request) = Some example_brief"
      "map function_view (cx_functions cfg)
          = [(''get_appointment_slots'', Some ''GET''), (''check_availability'', Some ''GET'')]"
      "cx_conversation_flow cfg = Some cf"
    and v: "map model_view (cf_nodes cf) = example_views"
    by (elim exE conjE) (rule that)
  have t: "\<exists>t \<in> set (tasks example_brief). task_name t = ''Appointment Booking''
          \<and> data_to_collect t = [''customer_name'', ''preferred_date'', ''preferred_time'']"
    by (simp add: example_brief_def example_tasks_def mk_task_def greet_pattern_def)
  have ids: "fnode_id ` set (cf_nodes cf) = fst ` set example_views"
  proof -
    have "map fnode_id (cf_nodes cf) = map fst (map model_view (cf_nodes cf))"
      by (simp add: model_view_def comp_def)
    then have "map fnode_id (cf_nodes cf) = map fst example_views" by (simp add: v)
    then have "set (map fnode_id (cf_nodes cf)) = set (map fst example_views)" by simp
    then show ?thesis unfolding set_map .
  qed
  have sub: "{''node_greet'', ''node_collect_customer_name'', ''node_collect_preferred_date'',
         ''node_api_appointment_booking'', ''node_confirm'', ''node_end''} \<subseteq> fst ` set example_views"
    by (simp add: example_views_def)
  have "(''node_confirm'', ''confirm'', None, None,
          [(''nothing_else'', ''node_end''), (''has_more_questions'', ''node_greet'')])
        \<in> set (map model_view (cf_nodes cf))"
    unfolding v by (simp add: example_views_def)
  then obtain n where n: "n \<in> set (cf_nodes cf)"
      "model_view n = (''node_confirm'', ''confirm'', None, None,
          [(''nothing_else'', ''node_end''), (''has_more_questions'', ''node_greet'')])"
    by auto
  from model_view_parts(1,5) [OF n(2)] have ni: "fnode_id n = ''node_confirm''"
      and nt: "map ft_target_node_id (fnode_transitions n) = [''node_end'', ''node_greet'']"
    by simp_all
  have "set (map ft_target_node_id (fnode_transitions n)) = {''node_end'', ''node_greet''}"
    unfolding nt by simp
  then have "''node_end'' \<in> ft_target_node_id ` set (fnode_transitions n)"
    unfolding set_map by simp
  with ni n(1) have c: "\<exists>n \<in> set (cf_nodes cf). fnode_id n = ''node_confirm''
          \<and> ''node_end'' \<in> ft_target_node_id ` set (fnode_transitions n)" by blast
  have d: "domain example_brief = ''healthcare''"
      "user_requested_slots example_brief = [''customer_name'', ''preferred_date'']"
    by (simp_all add: example_brief_def)
  show ?thesis
  proof (intro exI conjI)
    show "raw_analysis (process_request w example_request) = Some example_brief" by (rule o(2))
    show "agent_config (process_request w example_request) = Some cfg" by (rule o(1))
    show "domain example_brief = ''healthcare''" by (rule d(1))
    show "user_requested_slots example_brief = [''customer_name'', ''preferred_date'']" by (rule d(2))
    show "\<exists>t \<in> set (tasks example_brief). task_name t = ''Appointment Booking''
          \<and> data_to_collect t = [''customer_name'', ''preferred_date'', ''preferred_time'']" by (rule t)
    show "map function_view (cx_functions cfg)
          = [(''get_appointment_slots'', Some ''GET''), (''check_availability'', Some ''GET'')]"
      by (rule o(3))
    show "cx_conversation_flow cfg = Some cf" by (rule o(4))
    show "{''node_greet'', ''node_collect_customer_name'', ''node_collect_preferred_date'',
         ''node_api_appointment_booking'', ''node_confirm'', ''node_end''} \<subseteq> fnode_id ` set (cf_nodes cf)"
      unfolding ids by (rule sub)
    show "\<exists>n \<in> set (cf_nodes cf). fnode_id n = ''node_confirm''
          \<and> ''node_end'' \<in> ft_target_node_id ` set (fnode_transitions n)" by (rule c)
  qed
qed

text \<open>The amended scenario in the world \<open>world_a\<close>.\<close>

theorem example_scenario_witness:
  "\<exists>cfg. agent_config (process_request world_a example_request) = Some cfg
      \<and> map function_view (cx_functions cfg)
          = [(''get_appointment_slots'', Some ''GET''), (''check_availability'', Some ''GET'')]"
  using example_scenario [of world_a] by (elim exE conjE) (intro exI conjI)

text \<open>
  The catalogue of the configuration for the example request names two functions, not
  one.
\<close>

theorem example_catalogue_has_two_functions:
  "map_option (\<lambda>cfg. map fdef_name (cx_functions cfg)) (agent_config (process_request world_a example_request))
     = Some [''get_appointment_slots'', ''check_availability'']"
proof -
  from example_output [of world_a] obtain cfg where
    c: "agent_config (process_request world_a example_request) = Some cfg" and
    v: "map function_view (cx_functions cfg)
          = [(''get_appointment_slots'', Some ''GET''), (''check_availability'', Some ''GET'')]"
    by (elim exE conjE) (rule that)
  have "map fdef_name (cx_functions cfg) = map fst (map function_view (cx_functions cfg))"
    by (simp add: function_view_def comp_def)
  then have "map fdef_name (cx_functions cfg) = [''get_appointment_slots'', ''check_availability'']"
    unfolding v by simp
  then show ?thesis by (simp add: c)
qed

section \<open>Claim C6: voice gender detection\<close>

text \<open>
  Claim C6 asks for the answer \<open>female\<close> on every text that contains the phrase
  \<open>female voice\<close> or \<open>female agent\<close>. The test for the male phrases comes first in the
  source and each female phrase contains the male one as a substring, so the branch that
  answers \<open>female\<close> for an explicit phrase is never taken: on the lower-cased text
  \<open>use a female voice\<close> the detection answers \<open>male\<close>.
\<close>

theorem detect_voice_gender_female_voice:
  "detect_voice_gender ''use a female voice'' = ''male''"
  by code_simp

section \<open>Claim C7: repeated invocations\<close>

text \<open>
  Claim C7 says that two invocations of the rule-based pipeline with the same prompt,
  language and platform give equal outputs, ids and timestamps included. The ids come
  from random UUIDs and the timestamp from the clock, both read from the world at each
  invocation. As amended: for every request and every two worlds, the two responses have
  the same success flag, the same message, equal analysis briefs and equal tool-schema
  lists, and their configurations are equal once \<open>agent_id\<close>, \<open>created_at\<close>, every
  \<open>intent_id\<close>, every \<open>function_id\<close> and the \<open>flow_id\<close> are blanked.
\<close>

theorem rule_pipeline_agrees_up_to_generated:
  "success (process_request w1 rq) = success (process_request w2 rq)
   \<and> message (process_request w1 rq) = message (process_request w2 rq)
   \<and> raw_analysis (process_request w1 rq) = raw_analysis (process_request w2 rq)
   \<and> openai_tools_schema (process_request w1 rq) = openai_tools_schema (process_request w2 rq)
   \<and> map_option blank_generated (agent_config (process_request w1 rq))
       = map_option blank_generated (agent_config (process_request w2 rq))"
proof -
  have b: "blank_response (process_request w1 rq) = blank_response (process_request w2 rq)"
    unfolding process_request_def by (rule process_request_with_agree)
  have f: "success (blank_response r) = success r" "message (blank_response r) = message r"
      "raw_analysis (blank_response r) = raw_analysis r"
      "openai_tools_schema (blank_response r) = openai_tools_schema r"
      "agent_config (blank_response r) = map_option blank_generated (agent_config r)" for r
    by (simp_all add: blank_response_def)
  from b f [of "process_request w1 rq"] f [of "process_request w2 rq"] show ?thesis by simp
qed

text \<open>The amended statement for the example request in the worlds \<open>world_a\<close> and \<open>world_b\<close>.\<close>

theorem rule_pipeline_agrees_witness:
  "raw_analysis (process_request world_a example_request) = raw_analysis (process_request world_b example_request)
   \<and> openai_tools_schema (process_request world_a example_request)
       = openai_tools_schema (process_request world_b example_request)
   \<and> map_option blank_generated (agent_config (process_request world_a example_request))
       = map_option blank_generated (agent_config (process_request world_b example_request))"
  using rule_pipeline_agrees_up_to_generated [of world_a example_request world_b] by simp

text \<open>
  The configurations of the example request in the two worlds carry different
  \<open>created_at\<close> timestamps.
\<close>

theorem outputs_differ_between_invocations:
  "map_option created_at (agent_config (process_request world_a example_request))
     \<noteq> map_option created_at (agent_config (process_request world_b example_request))"
  unfolding created_at_of_world by (simp add: world_a_def world_b_def)

section \<open>Claim C9: tool schemas list the required parameters\<close>

text \<open>
  Claim C9. For every list of function definition dicts, \<open>to_openai_tools\<close> yields one
  schema for each function, in order, and the \<open>required\<close> array of each schema is the
  list of the names of that function's parameters whose \<open>required\<close> flag is true or
  missing, in parameter order. The model method \<open>to_openai_tool_schema\<close> does the same
  with the flag of the validated parameter.
\<close>

theorem openai_tools_required:
  "map ts_required (to_openai_tools functions)
     = map (\<lambda>fn. map fp_name (filter flagged_required (fd_parameters fn))) functions
   \<and> map ts_required (get_openai_tools cfg)
     = map (\<lambda>f. map prm_name (filter prm_required (fdef_parameters f))) (cx_functions cfg)"
  by (simp add: to_openai_tools_def get_openai_tools_def to_openai_tool_required
      to_openai_tool_schema_required)

text \<open>
  A function with a parameter without the flag, one flagged false and one flagged true:
  the first and the third are required.
\<close>

theorem openai_tools_required_witness:
  "map ts_required (to_openai_tools [sample_function]) = [[''order_number'', ''email'']]"
proof -
  have "map (\<lambda>fn. map fp_name (filter flagged_required (fd_parameters fn))) [sample_function]
          = [[''order_number'', ''email'']]"
    by (simp add: sample_function_def sample_param_def flagged_required_def)
  then show ?thesis
    using openai_tools_required [of "[sample_function]"] by simp
qed

section \<open>Claim C10: failures are reported, not raised\<close>



end
